theory Spec2Isabelle
  imports Main "HOL-Library.Word"
begin

section \<open>libloadorder: plugins, load order and active plugins (src/plugins.cpp)\<close>

subsection \<open>Strings: case folding and file-name parts\<close>

text \<open>
  \<^verbatim>\<open>boost::iequals\<close> compares two strings element by element after
  \<^verbatim>\<open>std::toupper\<close> in the classic locale: only the ASCII letters
  \<^verbatim>\<open>a\<close>..\<^verbatim>\<open>z\<close> are changed, and the strings are equal when they have
  the same length and every pair of folded characters agrees.
\<close>

definition to_upper :: "char \<Rightarrow> char" where
  "to_upper c =
     (case map_of (zip ''abcdefghijklmnopqrstuvwxyz'' ''ABCDEFGHIJKLMNOPQRSTUVWXYZ'') c of
        Some u \<Rightarrow> u
      | None \<Rightarrow> c)"

definition iequals :: "string \<Rightarrow> string \<Rightarrow> bool" where
  "iequals a b = (map to_upper a = map to_upper b)"

text \<open>\<^verbatim>\<open>std::string::rfind(c)\<close>: the index of the last occurrence, \<open>None\<close> for
  \<^verbatim>\<open>npos\<close>.\<close>

fun rfind :: "char \<Rightarrow> string \<Rightarrow> nat option" where
  "rfind c [] = None"
| "rfind c (x # xs) =
     (case rfind c xs of
        Some i \<Rightarrow> Some (Suc i)
      | None \<Rightarrow> if x = c then Some 0 else None)"

text \<open>A file name: a path of one element, with no directory separator in it.\<close>

definition is_filename :: "string \<Rightarrow> bool" where
  "is_filename f = (CHR ''/'' \<notin> set f \<and> CHR 0x5C \<notin> set f)"

text \<open>
  \<^verbatim>\<open>fs::path(name).extension()\<close> and \<^verbatim>\<open>fs::path(name).stem()\<close> of Boost.Filesystem
  (version 3), for a path that is a file name, which is its own \<^verbatim>\<open>filename()\<close>: the
  names \<^verbatim>\<open>.\<close> and \<^verbatim>\<open>..\<close> have no extension; otherwise the extension runs from the
  last dot to the end and the stem is what stands before that dot.
\<close>

definition path_extension :: "string \<Rightarrow> string" where
  "path_extension f =
     (if f = ''.'' \<or> f = ''..'' then []
      else case rfind CHR ''.'' f of None \<Rightarrow> [] | Some pos \<Rightarrow> drop pos f)"

definition path_stem :: "string \<Rightarrow> string" where
  "path_stem f =
     (if f = ''.'' \<or> f = ''..'' then f
      else case rfind CHR ''.'' f of None \<Rightarrow> f | Some pos \<Rightarrow> take pos f)"

subsection \<open>Plugin\<close>

text \<open>The class \<^verbatim>\<open>Plugin\<close> has the single member \<^verbatim>\<open>name\<close>.\<close>

record Plugin =
  name :: string

text \<open>\<^verbatim>\<open>Plugin::Plugin(const string& filename)\<close>: a \<^verbatim>\<open>.ghost\<close> extension (in any
  case) is dropped once. The argument is taken to be a file name, as the directory scan, the
  lines of the text files and the masters of a header give it.\<close>

definition Plugin_of :: "string \<Rightarrow> Plugin" where
  "Plugin_of filename =
     (if iequals (path_extension filename) ''.ghost''
      then \<lparr>name = path_stem filename\<rparr>
      else \<lparr>name = filename\<rparr>)"

definition Name :: "Plugin \<Rightarrow> string" where
  "Name p = name p"

definition IsValid :: "Plugin \<Rightarrow> bool" where
  "IsValid p =
     (let ext = path_extension (name p) in iequals ext ''.esp'' \<or> iequals ext ''.esm'')"

text \<open>\<^verbatim>\<open>Plugin::operator==\<close> and \<^verbatim>\<open>operator!=\<close>.\<close>

definition Plugin_eq :: "Plugin \<Rightarrow> Plugin \<Rightarrow> bool" where
  "Plugin_eq p rhs = iequals (name p) (Name rhs)"

definition Plugin_neq :: "Plugin \<Rightarrow> Plugin \<Rightarrow> bool" where
  "Plugin_neq p rhs = (\<not> Plugin_eq p rhs)"

subsection \<open>Games, errors and the world outside the library\<close>

datatype game_id =
  LIBLO_GAME_TES3 | LIBLO_GAME_TES4 | LIBLO_GAME_TES5
| LIBLO_GAME_FO3 | LIBLO_GAME_FNV | LIBLO_GAME_FO4

datatype lo_method = LIBLO_METHOD_TIMESTAMP | LIBLO_METHOD_TEXTFILE

datatype error_code =
  LIBLO_ERROR_FILE_WRITE_FAIL | LIBLO_ERROR_FILE_RENAME_FAIL | LIBLO_ERROR_FILE_PARSE_FAIL
| LIBLO_ERROR_FILE_NOT_UTF8 | LIBLO_ERROR_TIMESTAMP_READ_FAIL
| LIBLO_ERROR_TIMESTAMP_WRITE_FAIL | LIBLO_WARN_BAD_FILENAME

text \<open>
  What an operation can throw: a \<^verbatim>\<open>liblo::error\<close> (src/backend/error.cpp: a code and
  a text), the \<^verbatim>\<open>std::out_of_range\<close> of \<^verbatim>\<open>vector::at\<close>, a
  \<^verbatim>\<open>boost::filesystem::filesystem_error\<close> with its text, and whatever a header query
  of libespm throws.
\<close>

datatype exn =
  error error_code string | out_of_range | filesystem_error string | espm_exception

text \<open>\<^verbatim>\<open>time_t\<close>: a signed integer of 64 bits. Times are compared as signed numbers
  (\<open><s\<close>); an addition that leaves the range, undefined in C++, is taken as the compiled
  code performs it, wrapping around in two's complement.\<close>

type_synonym time_t = "64 word"

text \<open>
  The part of \<^verbatim>\<open>_lo_game_handle_int\<close> (game.h) that plugins.cpp reads and writes. The
  class \<^verbatim>\<open>LoadOrder\<close> is a \<^verbatim>\<open>std::vector<Plugin>\<close> with a cached time, the class
  \<^verbatim>\<open>ActivePlugins\<close> a \<^verbatim>\<open>boost::unordered_set<Plugin>\<close> with a cached time. The set is
  kept as the list of its elements in iteration order; which order that is, is not specified,
  so a statement about a set is made for every list. The field \<open>GameId\<close> is the handle's
  \<^verbatim>\<open>Id()\<close>.
\<close>

record game =
  GameId :: game_id
  MasterFile :: string
  PluginsFolder :: string
  ActivePluginsFile :: string
  LoadOrderFile :: string
  loadOrder :: "Plugin list"
  loadOrder_mtime :: time_t
  activePlugins :: "Plugin list"
  activePlugins_mtime :: time_t

text \<open>Modelled from the spec: the constructor of the game handle (game.cpp) is not among
  the sources; the ordering method is derived from the game id, TEXTFILE for TES5 and FO4
  and TIMESTAMP for TES3, TES4, FO3 and FONV.\<close>

definition LoadOrderMethod :: "game \<Rightarrow> lo_method" where
  "LoadOrderMethod g =
     (if GameId g = LIBLO_GAME_TES5 \<or> GameId g = LIBLO_GAME_FO4
      then LIBLO_METHOD_TEXTFILE else LIBLO_METHOD_TIMESTAMP)"

text \<open>
  The world the library works on.
  \<^item> \<open>file_id\<close>: the file of the plugins folder that a file name denotes; two names denote
    the same file exactly when they have the same id (the name itself on a case-sensitive
    file system, the name with its case folded on a case-insensitive one).
  \<^item> \<open>plugin_files\<close>: the files of the plugins folder, by id, with their last write time;
    \<open>read_only\<close>: the ids of the files whose time cannot be set; \<open>status_error\<close>: the
    names and paths whose status cannot be queried, so that \<^verbatim>\<open>fs::exists\<close> and
    \<^verbatim>\<open>fs::last_write_time\<close> throw; \<open>folder_time\<close>: the last write time of the folder
    itself, \<open>None\<close> when it cannot be read.
  \<^item> \<open>text_files\<close>: the load-order file and the active-plugins file, by path, with their
    contents and last write time (they do not lie in the plugins folder); \<open>no_write\<close>: the
    paths that cannot be opened for writing; \<open>clock\<close>: the time a file written now
    receives.
  \<^item> \<open>what_of\<close>: the text Boost gives the \<^verbatim>\<open>filesystem_error\<close> of a path.
  \<^item> \<open>header_master\<close>, \<open>header_masters\<close>: what the header of a plugin file says, the
    master flag and the list of masters, and \<open>espm_fails\<close>: the file names on which the
    header queries of libespm (libespm-interface.h) throw instead of answering.
  \<^item> \<open>EncToUtf8\<close>, \<open>Utf8ToEnc\<close>: the two directions of the \<^verbatim>\<open>Transcoder\<close>
    (helpers.h); \<open>Utf8ToEnc\<close> gives \<open>Inr\<close> the encoded bytes or \<open>Inl\<close> the text
    (\<^verbatim>\<open>what()\<close>) of the error it throws.
  \<^item> \<open>bucket\<close>: the place in the iteration order at which the hash table of a
    \<^verbatim>\<open>boost::unordered_set<Plugin>\<close> puts a new element; it depends on the hash values
    and the size of the table.
  libespm, the transcoder and the hash table are not among the sources and are taken as
  parameters.
\<close>

record env =
  file_id :: "string \<Rightarrow> string"
  plugin_files :: "string \<rightharpoonup> time_t"
  read_only :: "string set"
  status_error :: "string set"
  folder_time :: "time_t option"
  text_files :: "string \<rightharpoonup> string \<times> time_t"
  no_write :: "string set"
  clock :: time_t
  what_of :: "string \<Rightarrow> string"
  header_master :: "string \<Rightarrow> bool"
  header_masters :: "string \<Rightarrow> string list"
  espm_fails :: "string set"
  EncToUtf8 :: "string \<Rightarrow> string"
  Utf8ToEnc :: "string \<Rightarrow> string + string"
  bucket :: "Plugin \<Rightarrow> Plugin list \<Rightarrow> nat"

subsection \<open>The file system and libespm\<close>

text \<open>\<^verbatim>\<open>fs::exists\<close>, \<^verbatim>\<open>fs::last_write_time\<close> (reading and setting) on a file of the
  plugins folder: each throws a \<^verbatim>\<open>filesystem_error\<close> when it cannot do its work.\<close>

definition fs_exists :: "env \<Rightarrow> string \<Rightarrow> exn + bool" where
  "fs_exists e n =
     (if n \<in> status_error e then Inl (filesystem_error (what_of e n))
      else Inr (plugin_files e (file_id e n) \<noteq> None))"

definition fs_last_write_time :: "env \<Rightarrow> string \<Rightarrow> exn + time_t" where
  "fs_last_write_time e n =
     (if n \<in> status_error e then Inl (filesystem_error (what_of e n))
      else case plugin_files e (file_id e n) of
             None \<Rightarrow> Inl (filesystem_error (what_of e n))
           | Some t \<Rightarrow> Inr t)"

definition fs_set_last_write_time :: "env \<Rightarrow> string \<Rightarrow> time_t \<Rightarrow> exn + env" where
  "fs_set_last_write_time e n t =
     (if n \<notin> status_error e \<and> plugin_files e (file_id e n) \<noteq> None \<and>
         file_id e n \<notin> read_only e
      then Inr (e\<lparr>plugin_files := (plugin_files e)(file_id e n \<mapsto> t)\<rparr>)
      else Inl (filesystem_error (what_of e n)))"

text \<open>\<^verbatim>\<open>libespm::IsPluginMaster\<close> and \<^verbatim>\<open>libespm::GetPluginMasters\<close>.\<close>

definition IsPluginMaster :: "env \<Rightarrow> string \<Rightarrow> exn + bool" where
  "IsPluginMaster e n = (if n \<in> espm_fails e then Inl espm_exception else Inr (header_master e n))"

definition GetPluginMasters :: "env \<Rightarrow> string \<Rightarrow> exn + string list" where
  "GetPluginMasters e n =
     (if n \<in> espm_fails e then Inl espm_exception else Inr (header_masters e n))"

text \<open>\<^verbatim>\<open>try { ... } catch (fs::filesystem_error& e) { throw error(code, e.what()); }\<close>\<close>

definition catch_fs :: "error_code \<Rightarrow> exn + 'a \<Rightarrow> exn + 'a" where
  "catch_fs code r =
     (case r of
        Inl (filesystem_error what) \<Rightarrow> Inl (error code what)
      | _ \<Rightarrow> r)"

subsection \<open>Plugin: queries on the plugins folder\<close>

definition IsGhosted :: "env \<Rightarrow> Plugin \<Rightarrow> exn + bool" where
  "IsGhosted e p = fs_exists e (name p @ ''.ghost'')"

definition Exists :: "env \<Rightarrow> Plugin \<Rightarrow> exn + bool" where
  "Exists e p =
     (case fs_exists e (name p) of
        Inl x \<Rightarrow> Inl x
      | Inr found \<Rightarrow> if found then Inr True else fs_exists e (name p @ ''.ghost''))"

definition IsMasterFile :: "env \<Rightarrow> Plugin \<Rightarrow> exn + bool" where
  "IsMasterFile e p =
     (case IsGhosted e p of
        Inl x \<Rightarrow> Inl x
      | Inr ghosted \<Rightarrow>
          if ghosted then IsPluginMaster e (name p @ ''.ghost'')
          else IsPluginMaster e (name p))"

definition GetModTime :: "env \<Rightarrow> Plugin \<Rightarrow> exn + time_t" where
  "GetModTime e p =
     catch_fs LIBLO_ERROR_TIMESTAMP_READ_FAIL
       (case IsGhosted e p of
          Inl x \<Rightarrow> Inl x
        | Inr ghosted \<Rightarrow>
            if ghosted then fs_last_write_time e (name p @ ''.ghost'')
            else fs_last_write_time e (name p))"

definition GetMasters :: "env \<Rightarrow> Plugin \<Rightarrow> exn + Plugin list" where
  "GetMasters e p =
     (case IsGhosted e p of
        Inl x \<Rightarrow> Inl x
      | Inr ghosted \<Rightarrow>
          (case (if ghosted then GetPluginMasters e (name p @ ''.ghost'')
                 else GetPluginMasters e (name p)) of
             Inl x \<Rightarrow> Inl x
           | Inr strMasters \<Rightarrow> Inr (map Plugin_of strMasters)))"

definition SetModTime :: "env \<Rightarrow> Plugin \<Rightarrow> time_t \<Rightarrow> exn + env" where
  "SetModTime e p modificationTime =
     catch_fs LIBLO_ERROR_TIMESTAMP_WRITE_FAIL
       (case IsGhosted e p of
          Inl x \<Rightarrow> Inl x
        | Inr ghosted \<Rightarrow>
            if ghosted then fs_set_last_write_time e (name p @ ''.ghost'') modificationTime
            else fs_set_last_write_time e (name p) modificationTime)"

subsection \<open>Containers\<close>

text \<open>\<^verbatim>\<open>vector::insert(begin() + k, x)\<close> is defined for \<open>k\<close> up to the size, and
  \<^verbatim>\<open>vector::erase(begin() + k)\<close> below it; outside that the behaviour is undefined
  (\<open>None\<close>).\<close>

definition vinsert :: "nat \<Rightarrow> 'a \<Rightarrow> 'a list \<Rightarrow> 'a list option" where
  "vinsert k x xs = (if k \<le> length xs then Some (take k xs @ x # drop k xs) else None)"

definition verase :: "nat \<Rightarrow> 'a list \<Rightarrow> 'a list option" where
  "verase k xs = (if k < length xs then Some (take k xs @ drop (Suc k) xs) else None)"

text \<open>\<^verbatim>\<open>boost::unordered_set<Plugin>\<close> with the hash and equality of plugins.cpp:
  \<^verbatim>\<open>find(p) != end()\<close>, and \<^verbatim>\<open>insert\<close>/\<^verbatim>\<open>emplace\<close>, which leave the set alone
  when it holds an equal element and otherwise put the new element where the hash table
  has its bucket (at the end when \<open>bucket\<close> points past it).\<close>

definition contains :: "Plugin list \<Rightarrow> Plugin \<Rightarrow> bool" where
  "contains s p = list_ex (\<lambda>q. Plugin_eq q p) s"

definition emplace :: "env \<Rightarrow> Plugin \<Rightarrow> Plugin list \<Rightarrow> Plugin list" where
  "emplace e p s =
     (if contains s p then s
      else take (bucket e p s) s @ p # drop (bucket e p s) s)"

subsection \<open>LoadOrder\<close>

text \<open>\<^verbatim>\<open>LoadOrder::Find\<close>: the index of the first element equal to the plugin, the
  size when there is none.\<close>

fun Find :: "Plugin \<Rightarrow> Plugin list \<Rightarrow> nat" where
  "Find plugin [] = 0"
| "Find plugin (x # xs) = (if Plugin_eq plugin x then 0 else Suc (Find plugin xs))"

definition Move :: "nat \<Rightarrow> Plugin \<Rightarrow> Plugin list \<Rightarrow> Plugin list option" where
  "Move newPos plugin lo =
     (let pos = Find plugin lo in
      if pos = length lo then vinsert newPos plugin lo
      else
        let newPos' = (if pos < newPos then newPos - 1 else newPos) in
        case verase pos lo of
          None \<Rightarrow> None
        | Some lo' \<Rightarrow> vinsert newPos' plugin lo')"

text \<open>The loop of \<^verbatim>\<open>LoadOrder::IsValid\<close>, with \<^verbatim>\<open>wasMaster\<close> and the
  \<^verbatim>\<open>hashset\<close> of the elements passed so far. The function has no handler: what a query
  throws leaves it.\<close>

fun IsValid_loop :: "env \<Rightarrow> bool \<Rightarrow> Plugin list \<Rightarrow> Plugin list \<Rightarrow> exn + bool" where
  "IsValid_loop e wasMaster hashset [] = Inr True"
| "IsValid_loop e wasMaster hashset (it # rest) =
     (case Exists e it of
        Inl x \<Rightarrow> Inl x
      | Inr found \<Rightarrow>
          if \<not> found then Inr False
          else
            (case IsMasterFile e it of
               Inl x \<Rightarrow> Inl x
             | Inr isMaster \<Rightarrow>
                 if isMaster \<and> \<not> wasMaster then Inr False
                 else if contains hashset it then Inr False
                 else
                   (case GetMasters e it of
                      Inl x \<Rightarrow> Inl x
                    | Inr masters \<Rightarrow>
                        if \<not> list_all (contains hashset) masters then Inr False
                        else IsValid_loop e isMaster (emplace e it hashset) rest)))"

definition LoadOrder_IsValid :: "env \<Rightarrow> game \<Rightarrow> Plugin list \<Rightarrow> exn + bool" where
  "LoadOrder_IsValid e g lo =
     (case lo of
        [] \<Rightarrow> Inl out_of_range
      | first # _ \<Rightarrow>
          if Plugin_neq first (Plugin_of (MasterFile g)) then Inr False
          else IsValid_loop e True [] lo)"

text \<open>
  The loop of \<^verbatim>\<open>LoadOrder::Save\<close> under the timestamp method, from index 1 on: the
  world after it and the exception that ended it, if any.
\<close>

fun Save_timestamps :: "env \<Rightarrow> time_t \<Rightarrow> Plugin list \<Rightarrow> env \<times> exn option" where
  "Save_timestamps e lastTime [] = (e, None)"
| "Save_timestamps e lastTime (p # ps) =
     (case GetModTime e p of
        Inl x \<Rightarrow> (e, Some x)
      | Inr thisTime \<Rightarrow>
          if lastTime <s thisTime then Save_timestamps e thisTime ps
          else
            (case SetModTime e p (lastTime + 60) of
               Inl x \<Rightarrow> (e, Some x)
             | Inr e' \<Rightarrow> Save_timestamps e' (lastTime + 60) ps))"

subsection \<open>Text files\<close>

text \<open>The strings that successive \<^verbatim>\<open>getline\<close> calls deliver while the stream is
  \<^verbatim>\<open>good()\<close>: the pieces between line feeds, the last one included (it is empty when the
  text ends in a line feed).\<close>

fun getlines :: "string \<Rightarrow> string list" where
  "getlines [] = [[]]"
| "getlines (c # cs) =
     (if c = CHR 0x0A then [] # getlines cs
      else case getlines cs of [] \<Rightarrow> [[c]] | l # ls \<Rightarrow> (c # l) # ls)"

text \<open>\<^verbatim>\<open>std::string::find(pat)\<close>: the first index at which \<open>pat\<close> occurs.\<close>

fun str_find :: "string \<Rightarrow> string \<Rightarrow> nat option" where
  "str_find [] pat = (if pat = [] then Some 0 else None)"
| "str_find (c # cs) pat =
     (if take (length pat) (c # cs) = pat then Some 0
      else map_option Suc (str_find cs pat))"

text \<open>A \<^verbatim>\<open>size_t\<close> written to a stream: its decimal digits.\<close>

fun decimal :: "nat \<Rightarrow> string" where
  "decimal n =
     (if n < 10 then [''0123456789'' ! n]
      else decimal (n div 10) @ [''0123456789'' ! (n mod 10)])"

text \<open>Modelled from the spec: \<^verbatim>\<open>fileToBuffer\<close> (helpers.cpp) is not among the
  sources; it reads an existing file into memory, and leaves the buffer empty when there is
  no file to read.\<close>

definition fileToBuffer :: "env \<Rightarrow> string \<Rightarrow> string" where
  "fileToBuffer e path = (case text_files e path of None \<Rightarrow> [] | Some (c, t) \<Rightarrow> c)"

text \<open>A stream opened with \<^verbatim>\<open>ios_base::trunc\<close>, written and closed: the file has the
  new contents and the time of the write.\<close>

definition write_file :: "env \<Rightarrow> string \<Rightarrow> string \<Rightarrow> env" where
  "write_file e path out = e\<lparr>text_files := (text_files e)(path \<mapsto> (out, clock e))\<rparr>"

definition quoted :: "string \<Rightarrow> string" where
  "quoted path = CHR 0x22 # path @ [CHR 0x22]"

subsection \<open>ActivePlugins\<close>

text \<open>
  \<^verbatim>\<open>boost::regex_match\<close> of a whole line against
  \<^verbatim>\<open>GameFile[0-9]{1,3}=.+\.es(m|p)\<close>, ignoring case: the word, one to three digits, the
  equals sign, at least one character, and the extension at the end.
\<close>

definition ini_match :: "string \<Rightarrow> bool" where
  "ini_match line =
     (let u = map to_upper line;
          digits = takeWhile (\<lambda>c. c \<in> set ''0123456789'') (drop 8 u);
          rest = drop (8 + length digits) u
      in take 8 u = ''GAMEFILE'' \<and> 1 \<le> length digits \<and> length digits \<le> 3 \<and>
         take 1 rest = ''='' \<and> 6 \<le> length rest \<and>
         (drop (length rest - 4) rest = ''.ESM'' \<or> drop (length rest - 4) rest = ''.ESP''))"

text \<open>\<^verbatim>\<open>line.substr(line.find('=') + 1)\<close>; \<^verbatim>\<open>npos + 1\<close> is 0.\<close>

definition after_equals :: "string \<Rightarrow> string" where
  "after_equals line = (case str_find line ''='' of None \<Rightarrow> line | Some i \<Rightarrow> drop (Suc i) line)"

fun read_ini :: "env \<Rightarrow> string list \<Rightarrow> Plugin list \<Rightarrow> Plugin list" where
  "read_ini e [] s = s"
| "read_ini e (line # ls) s =
     (if line = [] \<or> \<not> ini_match line then read_ini e ls s
      else read_ini e ls (emplace e (Plugin_of (EncToUtf8 e (after_equals line))) s))"

fun read_plain :: "env \<Rightarrow> string list \<Rightarrow> Plugin list \<Rightarrow> Plugin list" where
  "read_plain e [] s = s"
| "read_plain e (line # ls) s =
     (if line = [] \<or> hd line = CHR ''#'' then read_plain e ls s
      else read_plain e ls (emplace e (Plugin_of (EncToUtf8 e line)) s))"

text \<open>\<^verbatim>\<open>ActivePlugins::Load\<close>: the game with the set as the call leaves it, and the
  exception thrown, if any; the set is cleared before the file is opened.\<close>

definition ActivePlugins_Load :: "env \<Rightarrow> game \<Rightarrow> game \<times> exn option" where
  "ActivePlugins_Load e g =
     (case text_files e (ActivePluginsFile g) of
        None \<Rightarrow>
          (g\<lparr>activePlugins := []\<rparr>,
           Some (error LIBLO_ERROR_FILE_PARSE_FAIL
                   (quoted (ActivePluginsFile g) @ '' could not be parsed.'')))
      | Some (text, t) \<Rightarrow>
          let s = (if GameId g = LIBLO_GAME_TES3 then read_ini e (getlines text) []
                   else read_plain e (getlines text) [])
          in
          if GameId g = LIBLO_GAME_TES5 then
            (if \<not> contains s (Plugin_of ''Skyrim.esm'')
             then (g\<lparr>activePlugins := emplace e (Plugin_of ''Skyrim.esm'') s\<rparr>, None)
             else
               (case Exists e (Plugin_of ''Update.esm'') of
                  Inl x \<Rightarrow> (g\<lparr>activePlugins := s\<rparr>, Some x)
                | Inr found \<Rightarrow>
                    if found \<and> \<not> contains s (Plugin_of ''Update.esm'')
                    then (g\<lparr>activePlugins := emplace e (Plugin_of ''Update.esm'') s\<rparr>, None)
                    else (g\<lparr>activePlugins := s\<rparr>, None)))
          else (g\<lparr>activePlugins := s\<rparr>, None))"

text \<open>The two writing loops of \<^verbatim>\<open>ActivePlugins::Save\<close>; the state is the text
  written so far and \<^verbatim>\<open>badFilename\<close>.\<close>

fun write_unordered ::
  "env \<Rightarrow> game \<Rightarrow> nat \<Rightarrow> Plugin list \<Rightarrow> string \<times> string \<Rightarrow> string \<times> string" where
  "write_unordered e g i [] (out, badFilename) = (out, badFilename)"
| "write_unordered e g i (it # rest) (out, badFilename) =
     (let out' = (if GameId g = LIBLO_GAME_TES3 then out @ ''GameFile'' @ decimal i @ ''=''
                  else out)
      in case Utf8ToEnc e (Name it) of
           Inr bytes \<Rightarrow> write_unordered e g (Suc i) rest (out' @ bytes @ [CHR 0x0A], badFilename)
         | Inl what \<Rightarrow> write_unordered e g (Suc i) rest (out', what))"

fun write_ordered ::
  "env \<Rightarrow> game \<Rightarrow> Plugin list \<Rightarrow> string \<times> string \<Rightarrow> string \<times> string" where
  "write_ordered e g [] (out, badFilename) = (out, badFilename)"
| "write_ordered e g (it # rest) (out, badFilename) =
     (if \<not> contains (activePlugins g) it \<or>
         (GameId g = LIBLO_GAME_TES5 \<and> Name it = MasterFile g)
      then write_ordered e g rest (out, badFilename)
      else case Utf8ToEnc e (Name it) of
             Inr bytes \<Rightarrow> write_ordered e g rest (out @ bytes @ [CHR 0x0A], badFilename)
           | Inl what \<Rightarrow> write_ordered e g rest (out, what))"

text \<open>\<^verbatim>\<open>ActivePlugins::Save\<close>: the world after it and the exception thrown, if any.\<close>

definition ActivePlugins_Save :: "env \<Rightarrow> game \<Rightarrow> env \<times> exn option" where
  "ActivePlugins_Save e g =
     (let settings =
            (if GameId g = LIBLO_GAME_TES3 then
               (let contents = fileToBuffer e (ActivePluginsFile g) in
                case str_find contents ''[Game Files]'' of
                  None \<Rightarrow> []
                | Some pos \<Rightarrow> take (pos + 12) contents)
             else [])
      in
      if ActivePluginsFile g \<in> no_write e then
        (e, Some (error LIBLO_ERROR_FILE_WRITE_FAIL
                    (quoted (ActivePluginsFile g) @ '' could not be parsed.'')))
      else
        let out = (if settings \<noteq> [] then settings @ [CHR 0x0A] else []);
            (out', badFilename) =
              (if LoadOrderMethod g = LIBLO_METHOD_TIMESTAMP
               then write_unordered e g 0 (activePlugins g) (out, [])
               else write_ordered e g (loadOrder g) (out, []));
            e' = write_file e (ActivePluginsFile g) out'
        in if badFilename \<noteq> [] then (e', Some (error LIBLO_WARN_BAD_FILENAME badFilename))
           else (e', None))"

text \<open>The loop of \<^verbatim>\<open>ActivePlugins::IsValid\<close> over the set in iteration order, with
  its local \<^verbatim>\<open>hashset\<close>.\<close>

fun ActivePlugins_IsValid_loop :: "env \<Rightarrow> Plugin list \<Rightarrow> Plugin list \<Rightarrow> exn + bool" where
  "ActivePlugins_IsValid_loop e hashset [] = Inr True"
| "ActivePlugins_IsValid_loop e hashset (it # rest) =
     (case Exists e it of
        Inl x \<Rightarrow> Inl x
      | Inr found \<Rightarrow>
          if \<not> found then Inr False
          else
            (case GetMasters e it of
               Inl x \<Rightarrow> Inl x
             | Inr masters \<Rightarrow>
                 if \<not> list_all (contains hashset) masters then Inr False
                 else ActivePlugins_IsValid_loop e (emplace e it hashset) rest))"

definition ActivePlugins_IsValid :: "env \<Rightarrow> game \<Rightarrow> Plugin list \<Rightarrow> exn + bool" where
  "ActivePlugins_IsValid e g ap =
     (case ActivePlugins_IsValid_loop e [] ap of
        Inl x \<Rightarrow> Inl x
      | Inr passed \<Rightarrow>
          if \<not> passed then Inr False
          else if length ap > 255 then Inr False
          else if GameId g = LIBLO_GAME_TES5 then
            (if \<not> contains ap (Plugin_of ''Skyrim.esm'') then Inr False
             else
               (case Exists e (Plugin_of ''Update.esm'') of
                  Inl x \<Rightarrow> Inl x
                | Inr found \<Rightarrow>
                    if found \<and> \<not> contains ap (Plugin_of ''Update.esm'') then Inr False
                    else Inr True))
          else Inr True)"

text \<open>\<^verbatim>\<open>ActivePlugins::HasChanged\<close>; the file's status and time are read inside a
  \<^verbatim>\<open>try\<close> block.\<close>

definition ActivePlugins_HasChanged :: "env \<Rightarrow> game \<Rightarrow> exn + bool" where
  "ActivePlugins_HasChanged e g =
     (if activePlugins g = [] then Inr True
      else
        catch_fs LIBLO_ERROR_TIMESTAMP_READ_FAIL
          (if ActivePluginsFile g \<in> status_error e
           then Inl (filesystem_error (what_of e (ActivePluginsFile g)))
           else case text_files e (ActivePluginsFile g) of
                  Some (text, t) \<Rightarrow> Inr (activePlugins_mtime g <s t)
                | None \<Rightarrow> Inr False))"

subsection \<open>LoadOrder::Save\<close>

text \<open>The world and the game after the call, and the exception thrown, if any.\<close>

definition LoadOrder_Save :: "env \<Rightarrow> game \<Rightarrow> (env \<times> game) \<times> exn option" where
  "LoadOrder_Save e g =
     (if LoadOrderMethod g = LIBLO_METHOD_TIMESTAMP then
        (case loadOrder g of
           [] \<Rightarrow> ((e, g), Some out_of_range)
         | first # rest \<Rightarrow>
             (case GetModTime e first of
                Inl x \<Rightarrow> ((e, g), Some x)
              | Inr lastTime \<Rightarrow>
                  (case Save_timestamps e lastTime rest of
                     (e', Some x) \<Rightarrow> ((e', g), Some x)
                   | (e', None) \<Rightarrow>
                       (case folder_time e' of
                          None \<Rightarrow>
                            ((e', g), Some (filesystem_error (what_of e' (PluginsFolder g))))
                        | Some t \<Rightarrow> ((e', g\<lparr>loadOrder_mtime := t\<rparr>), None)))))
      else if LoadOrderFile g \<in> no_write e then
        ((e, g), Some (error LIBLO_ERROR_FILE_WRITE_FAIL
                         (quoted (LoadOrderFile g) @ '' cannot be written to.'')))
      else
        let e1 = write_file e (LoadOrderFile g)
                   (concat (map (\<lambda>it. Name it @ [CHR 0x0A]) (loadOrder g)))
        in
        case ActivePlugins_HasChanged e1 g of
          Inl x \<Rightarrow> ((e1, g), Some x)
        | Inr changed \<Rightarrow>
            let (g1, loaded) = (if changed then ActivePlugins_Load e1 g else (g, None))
            in case loaded of
                 Some x \<Rightarrow> ((e1, g1), Some x)
               | None \<Rightarrow>
                   (case ActivePlugins_Save e1 g1 of
                      (e2, Some x) \<Rightarrow> ((e2, g1), Some x)
                    | (e2, None) \<Rightarrow>
                        (case text_files e2 (LoadOrderFile g1) of
                           None \<Rightarrow>
                             ((e2, g1),
                              Some (filesystem_error (what_of e2 (LoadOrderFile g1))))
                         | Some (text, t) \<Rightarrow> ((e2, g1\<lparr>loadOrder_mtime := t\<rparr>), None))))"

section \<open>The specification's notions\<close>

subsection \<open>Facts about a plugin\<close>

text \<open>
  A plugin is ghosted when the file \<^verbatim>\<open><name>.ghost\<close> exists in the plugins folder, and
  exists when that file or the file \<^verbatim>\<open><name>\<close> does; it stands for the ghost file when
  ghosted and for the plain file otherwise; it is a master when the header of that file
  flags it as one, and its masters are the plugins that header names. These are facts of
  the world; the member functions of \<^verbatim>\<open>Plugin\<close> find them out by queries that can fail.
  A plugin answers when none of the queries on it fails.
\<close>

definition ghosted :: "env \<Rightarrow> Plugin \<Rightarrow> bool" where
  "ghosted e p = (plugin_files e (file_id e (name p @ ''.ghost'')) \<noteq> None)"

definition on_disk :: "env \<Rightarrow> Plugin \<Rightarrow> bool" where
  "on_disk e p = (plugin_files e (file_id e (name p)) \<noteq> None \<or> ghosted e p)"

definition disk_name :: "env \<Rightarrow> Plugin \<Rightarrow> string" where
  "disk_name e p = (if ghosted e p then name p @ ''.ghost'' else name p)"

definition disk_file :: "env \<Rightarrow> Plugin \<Rightarrow> string" where
  "disk_file e p = file_id e (disk_name e p)"

definition is_master :: "env \<Rightarrow> Plugin \<Rightarrow> bool" where
  "is_master e p = header_master e (disk_name e p)"

definition masters_of :: "env \<Rightarrow> Plugin \<Rightarrow> Plugin list" where
  "masters_of e p = map Plugin_of (header_masters e (disk_name e p))"

definition answers :: "env \<Rightarrow> Plugin \<Rightarrow> bool" where
  "answers e p =
     (name p \<notin> status_error e \<and> name p @ ''.ghost'' \<notin> status_error e \<and>
      disk_name e p \<notin> espm_fails e)"

subsection \<open>Invariants of a load order\<close>

text \<open>(I1) the first element equals the game's canonical master.\<close>

definition I1 :: "game \<Rightarrow> Plugin list \<Rightarrow> bool" where
  "I1 g lo = (lo \<noteq> [] \<and> Plugin_eq (hd lo) (Plugin_of (MasterFile g)))"

text \<open>(I2) all master plugins precede all non-master plugins: of two elements, the later
  one is a master only if the earlier one is.\<close>

definition I2 :: "env \<Rightarrow> Plugin list \<Rightarrow> bool" where
  "I2 e lo = sorted_wrt (\<lambda>a b. is_master e b \<longrightarrow> is_master e a) lo"

text \<open>(I3) every element exists on disk.\<close>

definition I3 :: "env \<Rightarrow> Plugin list \<Rightarrow> bool" where
  "I3 e lo = list_all (on_disk e) lo"

text \<open>(I4) no duplicates, ignoring case.\<close>

definition I4 :: "Plugin list \<Rightarrow> bool" where
  "I4 lo = sorted_wrt (\<lambda>a b. \<not> Plugin_eq a b) lo"

text \<open>(I5) every master listed in a plugin's header appears earlier in the sequence.\<close>

definition I5 :: "env \<Rightarrow> Plugin list \<Rightarrow> bool" where
  "I5 e lo =
     list_all (\<lambda>j. list_all (contains (take j lo)) (masters_of e (lo ! j))) [0..<length lo]"

subsection \<open>Invariants of an active set\<close>

text \<open>(A1) every member exists; (A2) every master of every member is a member;
  (A3) at most 255 members; (A4) for TES5 the canonical master is a member, and
  Update.esm is a member whenever it exists on disk.\<close>

definition A1 :: "env \<Rightarrow> Plugin list \<Rightarrow> bool" where
  "A1 e ap = list_all (on_disk e) ap"

definition A2 :: "env \<Rightarrow> Plugin list \<Rightarrow> bool" where
  "A2 e ap = list_all (\<lambda>p. list_all (contains ap) (masters_of e p)) ap"

definition A3 :: "Plugin list \<Rightarrow> bool" where
  "A3 ap = (length ap \<le> 255)"

definition A4 :: "env \<Rightarrow> game \<Rightarrow> Plugin list \<Rightarrow> bool" where
  "A4 e g ap =
     (GameId g = LIBLO_GAME_TES5 \<longrightarrow>
        contains ap (Plugin_of (MasterFile g)) \<and>
        (on_disk e (Plugin_of ''Update.esm'') \<longrightarrow> contains ap (Plugin_of ''Update.esm'')))"

subsection \<open>Timestamps after a save\<close>

text \<open>The running time of the specification, on numbers without a bound: an element later
  than the running time keeps its time, which becomes the running time; any other element
  gets the running time plus 60 seconds, which becomes the running time.\<close>

fun running_times :: "int \<Rightarrow> int list \<Rightarrow> int list" where
  "running_times r [] = []"
| "running_times r (t # ts) =
     (if t > r then t # running_times t ts else (r + 60) # running_times (r + 60) ts)"

definition spec_times :: "int list \<Rightarrow> int list" where
  "spec_times ts = (case ts of [] \<Rightarrow> [] | t # rest \<Rightarrow> t # running_times t rest)"

subsection \<open>The text of the active-plugins file\<close>

text \<open>\<open>occurs pat s\<close>: the exact string \<open>pat\<close> stands somewhere in \<open>s\<close>.\<close>

definition occurs :: "string \<Rightarrow> string \<Rightarrow> bool" where
  "occurs pat s = list_ex (\<lambda>i. take (length pat) (drop i s) = pat) [0..<Suc (length s)]"

text \<open>The names \<^verbatim>\<open>ActivePlugins::Save\<close> transcodes, in the order it writes them: the set
  in iteration order under the timestamp method; under the textfile method the load order,
  without the entries that are not active and, for TES5, without the entries whose name is
  the master file's.\<close>

definition saved_names :: "game \<Rightarrow> string list" where
  "saved_names g =
     (if LoadOrderMethod g = LIBLO_METHOD_TIMESTAMP then map Name (activePlugins g)
      else map Name
             (filter (\<lambda>it. contains (activePlugins g) it \<and>
                            \<not> (GameId g = LIBLO_GAME_TES5 \<and> Name it = MasterFile g))
                (loadOrder g)))"

text \<open>What the \<open>i\<close>-th of these names adds to the file: for TES3 the key
  \<^verbatim>\<open>GameFile<i>=\<close>, and the encoded name with a line feed when it can be encoded.\<close>

definition entry_text :: "env \<Rightarrow> game \<Rightarrow> nat \<Rightarrow> string \<Rightarrow> string" where
  "entry_text e g i n =
     (if GameId g = LIBLO_GAME_TES3 then ''GameFile'' @ decimal i @ ''='' else []) @
     (case Utf8ToEnc e n of Inr bytes \<Rightarrow> bytes @ [CHR 0x0A] | Inl what \<Rightarrow> [])"

definition entries_text :: "env \<Rightarrow> game \<Rightarrow> string list \<Rightarrow> string" where
  "entries_text e g ns = concat (map (\<lambda>(i, n). entry_text e g i n) (zip [0..<length ns] ns))"

text \<open>The names that cannot be encoded.\<close>

definition failing_names :: "env \<Rightarrow> string list \<Rightarrow> string list" where
  "failing_names e ns = filter (\<lambda>n. isl (Utf8ToEnc e n)) ns"

subsection \<open>Where a move puts a plugin\<close>

text \<open>The elements of a load order other than the plugin moved (the one \<^verbatim>\<open>Find\<close>
  reports), the index at which \<^verbatim>\<open>Move\<close> puts the plugin among them, and the number of
  masters in a list.\<close>

definition others :: "Plugin \<Rightarrow> Plugin list \<Rightarrow> Plugin list" where
  "others plugin lo =
     (if Find plugin lo < length lo
      then take (Find plugin lo) lo @ drop (Suc (Find plugin lo)) lo
      else lo)"

definition landing :: "nat \<Rightarrow> Plugin \<Rightarrow> Plugin list \<Rightarrow> nat" where
  "landing pos plugin lo = (if Find plugin lo < pos then pos - 1 else pos)"

definition masters_count :: "env \<Rightarrow> Plugin list \<Rightarrow> nat" where
  "masters_count e xs = length (filter (is_master e) xs)"

subsection \<open>What a save leaves alone\<close>

text \<open>Two worlds have the same plugins when the same files exist in the plugins folder and
  everything but the times of these files and the text files is equal.\<close>

definition same_plugins :: "env \<Rightarrow> env \<Rightarrow> bool" where
  "same_plugins e e' =
     (e' = e\<lparr>plugin_files := plugin_files e', text_files := text_files e'\<rparr> \<and>
      dom (plugin_files e') = dom (plugin_files e))"

subsection \<open>What ActivePlugins::Save keeps and reports\<close>

text \<open>The text kept from the old \<^verbatim>\<open>Morrowind.ini\<close>: everything up to and including
  the first \<^verbatim>\<open>[Game Files]\<close>, closed by a line feed; nothing when the file does not hold
  that string, and nothing for the other games.\<close>

definition ini_prefix :: "env \<Rightarrow> game \<Rightarrow> string" where
  "ini_prefix e g =
     (if GameId g = LIBLO_GAME_TES3 then
        (case str_find (fileToBuffer e (ActivePluginsFile g)) ''[Game Files]'' of
           None \<Rightarrow> []
         | Some pos \<Rightarrow> take (pos + 12) (fileToBuffer e (ActivePluginsFile g)) @ [CHR 0x0A])
      else [])"

text \<open>\<^verbatim>\<open>badFilename\<close> after the names \<open>ns\<close> have been transcoded in turn: the text of
  the last error thrown, or what it was before when none was thrown.\<close>

definition bad_after :: "env \<Rightarrow> string \<Rightarrow> string list \<Rightarrow> string" where
  "bad_after e bad ns =
     foldl (\<lambda>b n. case Utf8ToEnc e n of Inl what \<Rightarrow> what | Inr bytes \<Rightarrow> b) bad ns"

section \<open>Example worlds and games\<close>

text \<open>
  A plugins folder with a few files, their times and headers (\<^verbatim>\<open>B.esp\<close> names
  \<^verbatim>\<open>A.esm\<close> as its master, \<^verbatim>\<open>Update.esm\<close> names \<^verbatim>\<open>Skyrim.esm\<close>), a \<^verbatim>\<open>plugins.txt\<close> that lists one plugin and a
  \<^verbatim>\<open>Morrowind.ini\<close> whose section header is written in lower case. The example
  transcoder cannot encode a name that holds the byte \<open>0xD0\<close> (the lead byte of a
  Cyrillic letter in UTF-8) and reports the name. The file system takes names as spelled,
  no query fails, and the hash table puts a new element last.
\<close>

definition world :: env where
  "world =
     \<lparr>file_id = (\<lambda>n. n),
      plugin_files =
        [''A.esm'' \<mapsto> 100, ''B.esp'' \<mapsto> 100, ''C.esp'' \<mapsto> 50, ''D.esp'' \<mapsto> 200,
         ''Skyrim.esm'' \<mapsto> 10, ''Update.esm'' \<mapsto> 20, ''Mod.esp'' \<mapsto> 30],
      read_only = {},
      status_error = {},
      folder_time = Some 1000,
      text_files =
        [''plugins.txt'' \<mapsto> (''Mod.esp'' @ [CHR 0x0A], 5),
         ''Morrowind.ini'' \<mapsto>
           (''[game files]'' @ [CHR 0x0A] @ ''GameFile0=Old.esm'' @ [CHR 0x0A], 5)],
      no_write = {},
      clock = 2000,
      what_of = (\<lambda>path. path),
      header_master = (\<lambda>f. f = ''A.esm'' \<or> f = ''Skyrim.esm'' \<or> f = ''Update.esm''),
      header_masters =
        (\<lambda>f. if f = ''B.esp'' then [''A.esm'']
             else if f = ''Update.esm'' then [''Skyrim.esm'']
             else []),
      espm_fails = {},
      EncToUtf8 = (\<lambda>s. s),
      Utf8ToEnc = (\<lambda>s. if CHR 0xD0 \<in> set s then Inl s else Inr s),
      bucket = (\<lambda>p s. length s)\<rparr>"

definition oblivion :: game where
  "oblivion =
     \<lparr>GameId = LIBLO_GAME_TES4, MasterFile = ''A.esm'', PluginsFolder = ''Data'',
      ActivePluginsFile = ''plugins.txt'', LoadOrderFile = ''plugins.txt'',
      loadOrder = [\<lparr>name = ''A.esm''\<rparr>, \<lparr>name = ''B.esp''\<rparr>, \<lparr>name = ''C.esp''\<rparr>],
      loadOrder_mtime = 0,
      activePlugins = [\<lparr>name = ''B.esp''\<rparr>, \<lparr>name = ''A.esm''\<rparr>],
      activePlugins_mtime = 0\<rparr>"

definition skyrim :: game where
  "skyrim =
     \<lparr>GameId = LIBLO_GAME_TES5, MasterFile = ''Skyrim.esm'', PluginsFolder = ''Data'',
      ActivePluginsFile = ''plugins.txt'', LoadOrderFile = ''loadorder.txt'',
      loadOrder = [\<lparr>name = ''skyrim.esm''\<rparr>, \<lparr>name = ''Update.esm''\<rparr>, \<lparr>name = ''Mod.esp''\<rparr>],
      loadOrder_mtime = 0,
      activePlugins = [\<lparr>name = ''skyrim.esm''\<rparr>, \<lparr>name = ''Update.esm''\<rparr>, \<lparr>name = ''Mod.esp''\<rparr>],
      activePlugins_mtime = 5\<rparr>"

definition morrowind :: game where
  "morrowind =
     \<lparr>GameId = LIBLO_GAME_TES3, MasterFile = ''Morrowind.esm'', PluginsFolder = ''Data Files'',
      ActivePluginsFile = ''Morrowind.ini'', LoadOrderFile = ''Morrowind.ini'',
      loadOrder = [],
      loadOrder_mtime = 0,
      activePlugins = [\<lparr>name = ''Tribunal.esm''\<rparr>, \<lparr>name = ''Bloodmoon.esm''\<rparr>],
      activePlugins_mtime = 0\<rparr>"

text \<open>An active set with a name the example transcoder cannot encode (the letter U+0416 in
  UTF-8, then \<^verbatim>\<open>.esp\<close>) between two names it can.\<close>

definition oblivion_cyrillic :: game where
  "oblivion_cyrillic =
     oblivion\<lparr>activePlugins :=
       [\<lparr>name = ''A.esm''\<rparr>, \<lparr>name = [CHR 0xD0, CHR 0x96] @ ''.esp''\<rparr>, \<lparr>name = ''B.esp''\<rparr>]\<rparr>"

text \<open>A TES3 game with such a set, and a world whose \<^verbatim>\<open>Morrowind.ini\<close> has the
  section header as the game writes it.\<close>

definition morrowind_cyrillic :: game where
  "morrowind_cyrillic =
     morrowind\<lparr>activePlugins :=
       [\<lparr>name = ''Tribunal.esm''\<rparr>, \<lparr>name = [CHR 0xD0, CHR 0x96] @ ''.esp''\<rparr>,
        \<lparr>name = ''Bloodmoon.esm''\<rparr>]\<rparr>"

definition world_ini :: env where
  "world_ini =
     world\<lparr>text_files :=
       [''Morrowind.ini'' \<mapsto>
          (''[Game Files]'' @ [CHR 0x0A] @ ''GameFile0=Old.esm'' @ [CHR 0x0A], 5)]\<rparr>"

text \<open>A world in which \<^verbatim>\<open>A.esm\<close> has a time 31 seconds before the end of the range of
  \<^verbatim>\<open>time_t\<close>, and \<^verbatim>\<open>B.esp\<close> the time 0.\<close>

definition world_late :: env where
  "world_late =
     world\<lparr>plugin_files :=
       [''A.esm'' \<mapsto> 9223372036854775777, ''B.esp'' \<mapsto> 0, ''C.esp'' \<mapsto> 50]\<rparr>"

section \<open>Properties\<close>

subsection \<open>File names and plugin identity\<close>

lemma rfind_append_char:
  "rfind c (f @ c # xs) =
     (case rfind c xs of Some i \<Rightarrow> Some (length f + 1 + i) | None \<Rightarrow> Some (length f))"
  by (induction f) (auto split: option.splits)

lemma rfind_less: "rfind c f = Some pos \<Longrightarrow> pos < length f"
  by (induction f arbitrary: pos) (auto split: option.splits if_splits)

lemma path_extension_ghost: "path_extension (f @ ''.ghost'') = ''.ghost''"
  by (simp add: path_extension_def rfind_append_char)

lemma path_stem_ghost: "path_stem (f @ ''.ghost'') = f"
  by (simp add: path_stem_def rfind_append_char)

lemma iequals_ghost_self: "iequals ''.ghost'' ''.ghost''"
  by (simp add: iequals_def)

lemma iequals_ghost_nonempty: "iequals a ''.ghost'' \<Longrightarrow> a \<noteq> []"
  by (auto simp: iequals_def)

lemma path_stem_shorter:
  assumes "path_extension f \<noteq> []"
  shows "path_stem f \<noteq> f"
proof -
  from assms have nd: "\<not> (f = ''.'' \<or> f = ''..'')"
    unfolding path_extension_def by presburger
  with assms obtain pos where pos: "rfind CHR ''.'' f = Some pos"
    by (auto simp: path_extension_def split: option.splits)
  then have "pos < length f" by (rule rfind_less)
  then have "length (take pos f) < length f" by simp
  then have "take pos f \<noteq> f" by (metis less_irrefl)
  with nd pos show ?thesis by (simp add: path_stem_def)
qed

lemma Plugin_eq_refl: "Plugin_eq p p"
  by (simp add: Plugin_eq_def Name_def iequals_def)

lemma Plugin_eq_sym: "Plugin_eq p q \<Longrightarrow> Plugin_eq q p"
  by (simp add: Plugin_eq_def Name_def iequals_def)

lemma Plugin_eq_trans: "Plugin_eq p q \<Longrightarrow> Plugin_eq q r \<Longrightarrow> Plugin_eq p r"
  by (simp add: Plugin_eq_def Name_def iequals_def)

text \<open>
  Claim C5, as amended. For a file name \<open>f\<close>, \<^verbatim>\<open>Plugin(f).name()\<close> equals
  \<^verbatim>\<open>Plugin(f + ".ghost").name()\<close> exactly when \<open>f\<close> does not itself end in the
  extension \<^verbatim>\<open>.ghost\<close> (in any case): the constructor drops one such extension only.
  Plugin equality compares the names ignoring case, so
  \<^verbatim>\<open>Plugin("A.esp") == Plugin("a.ESP")\<close>.
\<close>

theorem Plugin_name_ghost:
  assumes "is_filename f"
  shows "((Name (Plugin_of f) = Name (Plugin_of (f @ ''.ghost''))) =
            (\<not> iequals (path_extension f) ''.ghost'')) \<and>
         (Plugin_eq (Plugin_of a) (Plugin_of b) =
            (map to_upper (Name (Plugin_of a)) = map to_upper (Name (Plugin_of b)))) \<and>
         Plugin_eq (Plugin_of ''A.esp'') (Plugin_of ''a.ESP'')"
proof (intro conjI)
  have g: "Name (Plugin_of (f @ ''.ghost'')) = f"
    by (simp add: Plugin_of_def Name_def path_extension_ghost path_stem_ghost iequals_ghost_self)
  show "(Name (Plugin_of f) = Name (Plugin_of (f @ ''.ghost''))) =
           (\<not> iequals (path_extension f) ''.ghost'')"
  proof (cases "iequals (path_extension f) ''.ghost''")
    case True
    then have "path_stem f \<noteq> f"
      using path_stem_shorter iequals_ghost_nonempty by blast
    with True g show ?thesis by (simp add: Plugin_of_def Name_def)
  next
    case False
    with g show ?thesis by (simp add: Plugin_of_def Name_def)
  qed
  show "Plugin_eq (Plugin_of a) (Plugin_of b) =
           (map to_upper (Name (Plugin_of a)) = map to_upper (Name (Plugin_of b)))"
    by (simp add: Plugin_eq_def iequals_def Name_def)
  show "Plugin_eq (Plugin_of ''A.esp'') (Plugin_of ''a.ESP'')"
    by (simp add: Plugin_eq_def Plugin_of_def Name_def iequals_def path_extension_def
        to_upper_def)
qed

theorem Plugin_name_ghost_witness:
  "is_filename ''Plugin.esp'' \<and>
   Name (Plugin_of ''Plugin.esp'') = Name (Plugin_of (''Plugin.esp'' @ ''.ghost''))"
proof
  show f: "is_filename ''Plugin.esp''" by (simp add: is_filename_def)
  have x: "\<not> iequals (path_extension ''Plugin.esp'') ''.ghost''"
    by (simp add: path_extension_def iequals_def)
  from Plugin_name_ghost [OF f] have
    "(Name (Plugin_of ''Plugin.esp'') = Name (Plugin_of (''Plugin.esp'' @ ''.ghost''))) =
       (\<not> iequals (path_extension ''Plugin.esp'') ''.ghost'')"
    by (rule conjunct1)
  from iffD2 [OF this x]
  show "Name (Plugin_of ''Plugin.esp'') = Name (Plugin_of (''Plugin.esp'' @ ''.ghost''))" .
qed

text \<open>The claim as stated fails for a name that already carries the extension: one
  \<^verbatim>\<open>.ghost\<close> is dropped from each of the two names, and they stay different.\<close>

theorem Plugin_name_ghost_counterexample:
  "is_filename ''A.esp.ghost'' \<and>
   Name (Plugin_of ''A.esp.ghost'') = ''A.esp'' \<and>
   Name (Plugin_of (''A.esp.ghost'' @ ''.ghost'')) = ''A.esp.ghost'' \<and>
   Name (Plugin_of ''A.esp.ghost'') \<noteq> Name (Plugin_of (''A.esp.ghost'' @ ''.ghost''))"
  by (simp add: is_filename_def Plugin_of_def Name_def iequals_def path_extension_def
      path_stem_def to_upper_def)

subsection \<open>Queries and facts\<close>

lemma IsGhosted_Inr: "IsGhosted e p = Inr b \<Longrightarrow> b = ghosted e p"
  by (auto simp: IsGhosted_def fs_exists_def ghosted_def split: if_splits)

lemma Exists_Inr: "Exists e p = Inr b \<Longrightarrow> b = on_disk e p"
  by (auto simp: Exists_def fs_exists_def on_disk_def ghosted_def split: if_splits)

lemma IsMasterFile_Inr: "IsMasterFile e p = Inr b \<Longrightarrow> b = is_master e p"
  by (auto simp: IsMasterFile_def IsGhosted_def fs_exists_def IsPluginMaster_def
      is_master_def disk_name_def ghosted_def split: if_splits)

lemma GetMasters_Inr: "GetMasters e p = Inr ms \<Longrightarrow> ms = masters_of e p"
  by (auto simp: GetMasters_def IsGhosted_def fs_exists_def GetPluginMasters_def
      masters_of_def disk_name_def ghosted_def split: if_splits)

lemma answers_IsGhosted: "answers e p \<Longrightarrow> IsGhosted e p = Inr (ghosted e p)"
  by (simp add: answers_def IsGhosted_def fs_exists_def ghosted_def)

lemma answers_Exists: "answers e p \<Longrightarrow> Exists e p = Inr (on_disk e p)"
  by (simp add: answers_def Exists_def fs_exists_def on_disk_def ghosted_def)

lemma answers_IsMasterFile: "answers e p \<Longrightarrow> IsMasterFile e p = Inr (is_master e p)"
  by (cases "ghosted e p")
     (simp_all add: answers_def IsMasterFile_def IsGhosted_def fs_exists_def
       IsPluginMaster_def is_master_def disk_name_def ghosted_def)

lemma answers_GetMasters: "answers e p \<Longrightarrow> GetMasters e p = Inr (masters_of e p)"
  by (cases "ghosted e p")
     (simp_all add: answers_def GetMasters_def IsGhosted_def fs_exists_def
       GetPluginMasters_def masters_of_def disk_name_def ghosted_def)

lemma GetModTime_Inr: "GetModTime e p = Inr t \<Longrightarrow> plugin_files e (disk_file e p) = Some t"
  by (auto simp: GetModTime_def catch_fs_def IsGhosted_def fs_exists_def
      fs_last_write_time_def disk_file_def disk_name_def ghosted_def
      split: if_splits option.splits sum.splits exn.splits)

lemma GetModTime_eq:
  "GetModTime e p =
     (if name p @ ''.ghost'' \<in> status_error e
      then Inl (error LIBLO_ERROR_TIMESTAMP_READ_FAIL (what_of e (name p @ ''.ghost'')))
      else if disk_name e p \<in> status_error e
      then Inl (error LIBLO_ERROR_TIMESTAMP_READ_FAIL (what_of e (disk_name e p)))
      else case plugin_files e (disk_file e p) of
             None \<Rightarrow> Inl (error LIBLO_ERROR_TIMESTAMP_READ_FAIL (what_of e (disk_name e p)))
           | Some t \<Rightarrow> Inr t)"
  by (auto simp: GetModTime_def catch_fs_def IsGhosted_def fs_exists_def
      fs_last_write_time_def disk_file_def disk_name_def ghosted_def
      split: option.splits)

lemma SetModTime_Inr:
  assumes "SetModTime e p t = Inr e'"
  shows "e' = e\<lparr>plugin_files := (plugin_files e)(disk_file e p \<mapsto> t)\<rparr>"
    and "plugin_files e (disk_file e p) \<noteq> None"
  using assms
  by (auto simp: SetModTime_def catch_fs_def IsGhosted_def fs_exists_def
      fs_set_last_write_time_def disk_file_def disk_name_def ghosted_def
      split: if_splits sum.splits exn.splits)

subsection \<open>Find and Move\<close>

lemma Find_le: "Find plugin lo \<le> length lo"
  by (induction lo) auto

lemma Find_miss: "(Find plugin lo = length lo) = (\<forall>x \<in> set lo. \<not> Plugin_eq plugin x)"
proof (induction lo)
  case Nil show ?case by simp
next
  case (Cons x xs)
  have "Find plugin xs \<le> length xs" by (rule Find_le)
  with Cons show ?case by auto
qed

lemma Find_hit: "Find plugin lo < length lo \<Longrightarrow> Plugin_eq plugin (lo ! Find plugin lo)"
  by (induction lo) (auto split: if_splits)

lemma Move_absent:
  assumes "Find plugin lo = length lo" "pos \<le> length lo"
  shows "Move pos plugin lo = Some (take pos lo @ plugin # drop pos lo)"
  using assms by (simp add: Move_def vinsert_def)

lemma Move_present:
  assumes "Find plugin lo < length lo" "pos \<le> length lo"
  shows "Move pos plugin lo =
           Some (take (if Find plugin lo < pos then pos - 1 else pos)
                   (take (Find plugin lo) lo @ drop (Suc (Find plugin lo)) lo) @
                 plugin #
                 drop (if Find plugin lo < pos then pos - 1 else pos)
                   (take (Find plugin lo) lo @ drop (Suc (Find plugin lo)) lo))"
  using assms by (auto simp: Move_def vinsert_def verase_def Let_def)

lemma insert_nth_erase:
  assumes "k \<le> length r"
  shows "(take k r @ x # drop k r) ! k = x"
    and "verase k (take k r @ x # drop k r) = Some r"
    and "length (take k r @ x # drop k r) = Suc (length r)"
  using assms by (simp_all add: nth_append verase_def min_def)

text \<open>
  Claim C7. \<^verbatim>\<open>Find\<close> returns the size exactly when no element equals the plugin
  (ignoring case). For a position \<open>pos\<close> up to the size, \<^verbatim>\<open>Move(pos, plugin)\<close> puts an
  absent plugin at index \<open>pos\<close>; a plugin found at index \<open>p\<close> is removed and put back so
  that it ends at index \<open>pos\<close>, or at \<open>pos - 1\<close> when \<open>p < pos\<close>; the other elements keep
  their order (erasing the plugin from the result and from the original gives the same list).
\<close>

theorem Move_places_plugin:
  assumes "pos \<le> length lo"
  shows "(Find plugin lo = length lo \<longleftrightarrow> (\<forall>x \<in> set lo. \<not> Plugin_eq plugin x)) \<and>
         (Find plugin lo = length lo \<longrightarrow>
            Move pos plugin lo = Some (take pos lo @ plugin # drop pos lo)) \<and>
         (Find plugin lo < length lo \<longrightarrow>
            Plugin_eq plugin (lo ! Find plugin lo) \<and>
            (\<exists>lo'. Move pos plugin lo = Some lo' \<and>
                   length lo' = length lo \<and>
                   lo' ! (if Find plugin lo < pos then pos - 1 else pos) = plugin \<and>
                   verase (if Find plugin lo < pos then pos - 1 else pos) lo' =
                     verase (Find plugin lo) lo))"
proof (intro conjI impI)
  show "Find plugin lo = length lo \<longleftrightarrow> (\<forall>x \<in> set lo. \<not> Plugin_eq plugin x)"
    by (rule Find_miss)
  show "Move pos plugin lo = Some (take pos lo @ plugin # drop pos lo)"
    if "Find plugin lo = length lo"
    using that assms by (rule Move_absent)
  show "Plugin_eq plugin (lo ! Find plugin lo)" if "Find plugin lo < length lo"
    using that by (rule Find_hit)
  show "\<exists>lo'. Move pos plugin lo = Some lo' \<and>
                   length lo' = length lo \<and>
                   lo' ! (if Find plugin lo < pos then pos - 1 else pos) = plugin \<and>
                   verase (if Find plugin lo < pos then pos - 1 else pos) lo' =
                     verase (Find plugin lo) lo"
    if hit: "Find plugin lo < length lo"
  proof -
    define p where "p = Find plugin lo"
    define k where "k = (if p < pos then pos - 1 else pos)"
    define r where "r = take p lo @ drop (Suc p) lo"
    have lr: "Suc (length r) = length lo" using hit by (simp add: r_def p_def)
    have kr: "k \<le> length r" using hit assms lr by (auto simp: k_def p_def)
    have mv: "Move pos plugin lo = Some (take k r @ plugin # drop k r)"
      using Move_present [OF hit assms] by (simp add: k_def r_def p_def)
    have er: "verase p lo = Some r" using hit by (simp add: verase_def r_def p_def)
    show ?thesis
      using mv insert_nth_erase [OF kr, of plugin] lr er
      by (simp add: k_def p_def)
  qed
qed

theorem Move_places_plugin_witness:
  "Find \<lparr>name = ''b.ESP''\<rparr> [\<lparr>name = ''A.esm''\<rparr>, \<lparr>name = ''B.esp''\<rparr>, \<lparr>name = ''C.esp''\<rparr>] = 1 \<and>
   Move 3 \<lparr>name = ''b.ESP''\<rparr> [\<lparr>name = ''A.esm''\<rparr>, \<lparr>name = ''B.esp''\<rparr>, \<lparr>name = ''C.esp''\<rparr>]
     = Some [\<lparr>name = ''A.esm''\<rparr>, \<lparr>name = ''C.esp''\<rparr>, \<lparr>name = ''b.ESP''\<rparr>] \<and>
   Move 1 \<lparr>name = ''D.esp''\<rparr> [\<lparr>name = ''A.esm''\<rparr>, \<lparr>name = ''B.esp''\<rparr>, \<lparr>name = ''C.esp''\<rparr>]
     = Some [\<lparr>name = ''A.esm''\<rparr>, \<lparr>name = ''D.esp''\<rparr>, \<lparr>name = ''B.esp''\<rparr>, \<lparr>name = ''C.esp''\<rparr>]"
  using Move_places_plugin [of 3 "[\<lparr>name = ''A.esm''\<rparr>, \<lparr>name = ''B.esp''\<rparr>, \<lparr>name = ''C.esp''\<rparr>]" "\<lparr>name = ''b.ESP''\<rparr>"]
        Move_places_plugin [of 1 "[\<lparr>name = ''A.esm''\<rparr>, \<lparr>name = ''B.esp''\<rparr>, \<lparr>name = ''C.esp''\<rparr>]" "\<lparr>name = ''D.esp''\<rparr>"]
  by (simp add: Plugin_eq_def Name_def iequals_def to_upper_def Move_def vinsert_def verase_def)

subsection \<open>LoadOrder::IsValid\<close>

lemma contains_iff: "contains s p = (\<exists>q \<in> set s. Plugin_eq q p)"
  by (simp add: contains_def list_ex_iff)

lemma set_insert_at: "set (take k s @ x # drop k s) = insert x (set s)"
proof -
  have "set (take k s) \<union> set (drop k s) = set (take k s @ drop k s)" by (rule set_append [symmetric])
  then have "set (take k s) \<union> set (drop k s) = set s" by (simp only: append_take_drop_id)
  then show ?thesis by simp
qed

lemma contains_emplace: "contains (emplace e x s) p = (contains s p \<or> Plugin_eq x p)"
  unfolding emplace_def contains_iff
  by (auto simp: set_insert_at simp del: set_append intro: Plugin_eq_trans Plugin_eq_sym)

lemma contains_snoc: "contains (s @ [x]) p = (contains s p \<or> Plugin_eq x p)"
  by (auto simp: contains_iff)

lemma I2_append:
  "I2 e (xs @ ys) =
     (I2 e xs \<and> I2 e ys \<and> (\<forall>a \<in> set xs. \<forall>b \<in> set ys. is_master e b \<longrightarrow> is_master e a))"
  by (simp add: I2_def sorted_wrt_append)

lemma I2_all_masters:
  assumes "I2 e pre"
  shows "(pre = [] \<or> is_master e (last pre)) = (\<forall>p \<in> set pre. is_master e p)"
proof (cases pre rule: rev_cases)
  case Nil then show ?thesis by simp
next
  case (snoc ys y)
  with assms show ?thesis by (auto simp: I2_append)
qed

lemma I3_append: "I3 e (xs @ ys) = (I3 e xs \<and> I3 e ys)"
  by (simp add: I3_def)

lemma I4_append:
  "I4 (xs @ ys) = (I4 xs \<and> I4 ys \<and> (\<forall>a \<in> set xs. \<forall>b \<in> set ys. \<not> Plugin_eq a b))"
  by (simp add: I4_def sorted_wrt_append)

lemma I5_iff:
  "I5 e lo = (\<forall>j < length lo. \<forall>m \<in> set (masters_of e (lo ! j)). contains (take j lo) m)"
  by (auto simp: I5_def list_all_iff)

lemma I5_prefix: "I5 e (xs @ ys) \<Longrightarrow> I5 e xs"
  unfolding I5_iff
proof (intro allI impI ballI)
  fix j m
  assume a: "\<forall>j<length (xs @ ys). \<forall>m\<in>set (masters_of e ((xs @ ys) ! j)). contains (take j (xs @ ys)) m"
    and j: "j < length xs" and m: "m \<in> set (masters_of e (xs ! j))"
  from j have "j < length (xs @ ys)" by simp
  moreover from j m have "m \<in> set (masters_of e ((xs @ ys) ! j))" by (simp add: nth_append)
  ultimately have "contains (take j (xs @ ys)) m" using a by blast
  with j show "contains (take j xs) m" by simp
qed

lemma I5_snoc:
  "I5 e (xs @ [x]) = (I5 e xs \<and> (\<forall>m \<in> set (masters_of e x). contains xs m))"
proof
  assume a: "I5 e (xs @ [x])"
  then have "I5 e xs" by (rule I5_prefix)
  moreover have "\<forall>m \<in> set (masters_of e x). contains xs m"
    using a [unfolded I5_iff, rule_format, of "length xs"] by simp
  ultimately show "I5 e xs \<and> (\<forall>m \<in> set (masters_of e x). contains xs m)" by simp
next
  assume a: "I5 e xs \<and> (\<forall>m \<in> set (masters_of e x). contains xs m)"
  show "I5 e (xs @ [x])"
    unfolding I5_iff
  proof (intro allI impI ballI)
    fix j m
    assume j: "j < length (xs @ [x])" and m: "m \<in> set (masters_of e ((xs @ [x]) ! j))"
    show "contains (take j (xs @ [x])) m"
    proof (cases "j < length xs")
      case True
      with m have "m \<in> set (masters_of e (xs ! j))" by (simp add: nth_append)
      with a True have "contains (take j xs) m" by (simp add: I5_iff)
      with True show ?thesis by simp
    next
      case False
      with j have "j = length xs" by simp
      with a m show ?thesis by simp
    qed
  qed
qed

lemma I2_snoc:
  "I2 e pre \<Longrightarrow> I2 e (pre @ [x]) = (is_master e x \<longrightarrow> (\<forall>p \<in> set pre. is_master e p))"
  by (auto simp: I2_append) (simp_all add: I2_def)

lemma I3_snoc: "I3 e pre \<Longrightarrow> I3 e (pre @ [x]) = on_disk e x"
  by (simp add: I3_def)

lemma I4_snoc: "I4 pre \<Longrightarrow> I4 (pre @ [x]) = (\<not> contains pre x)"
  by (auto simp: I4_append contains_iff) (simp_all add: I4_def)

lemma IsValid_loop_char:
  assumes "\<forall>p. contains hashset p = contains pre p"
    and "wasMaster = (pre = [] \<or> is_master e (last pre))"
    and "I2 e pre" "I3 e pre" "I4 pre" "I5 e pre"
    and "list_all (answers e) rest"
  shows "IsValid_loop e wasMaster hashset rest =
           Inr (I2 e (pre @ rest) \<and> I3 e (pre @ rest) \<and> I4 (pre @ rest) \<and> I5 e (pre @ rest))"
  using assms
proof (induction rest arbitrary: pre hashset wasMaster)
  case Nil
  then show ?case by simp
next
  case (Cons x xs)
  let ?ok = "on_disk e x \<and> (is_master e x \<longrightarrow> wasMaster) \<and> \<not> contains hashset x \<and>
             list_all (contains hashset) (masters_of e x)"
  from Cons.prems(7) have ax: "answers e x" and axs: "list_all (answers e) xs" by simp_all
  note q = answers_Exists [OF ax] answers_IsMasterFile [OF ax] answers_GetMasters [OF ax]
  have w: "wasMaster = (\<forall>p \<in> set pre. is_master e p)"
    using Cons.prems(2,3) I2_all_masters by simp
  have hs: "\<And>p. contains hashset p = contains pre p" using Cons.prems(1) by simp
  have snoc: "(I2 e (pre @ [x]) \<and> I3 e (pre @ [x]) \<and> I4 (pre @ [x]) \<and> I5 e (pre @ [x])) = ?ok"
    using Cons.prems(3-6)
    by (auto simp: I2_snoc I3_snoc I4_snoc I5_snoc hs w list_all_iff)
  show ?case
  proof (cases ?ok)
    case True
    have step: "IsValid_loop e wasMaster hashset (x # xs) =
                  IsValid_loop e (is_master e x) (emplace e x hashset) xs"
      using True by (auto simp: q)
    have inv: "I2 e (pre @ [x])" "I3 e (pre @ [x])" "I4 (pre @ [x])" "I5 e (pre @ [x])"
      using snoc True by simp_all
    have hs': "\<forall>p. contains (emplace e x hashset) p = contains (pre @ [x]) p"
      by (simp add: contains_emplace contains_snoc hs)
    have w': "is_master e x = (pre @ [x] = [] \<or> is_master e (last (pre @ [x])))"
      by simp
    from Cons.IH [OF hs' w' inv axs] step show ?thesis by simp
  next
    case False
    then have l: "IsValid_loop e wasMaster hashset (x # xs) = Inr False"
      by (auto simp: q)
    have "\<not> (I2 e ((pre @ [x]) @ xs) \<and> I3 e ((pre @ [x]) @ xs) \<and> I4 ((pre @ [x]) @ xs) \<and>
              I5 e ((pre @ [x]) @ xs))"
    proof
      assume a: "I2 e ((pre @ [x]) @ xs) \<and> I3 e ((pre @ [x]) @ xs) \<and> I4 ((pre @ [x]) @ xs) \<and>
              I5 e ((pre @ [x]) @ xs)"
      then have "I2 e (pre @ [x])" "I3 e (pre @ [x])" "I4 (pre @ [x])"
        unfolding I2_append [of e "pre @ [x]"] I3_append [of e "pre @ [x]"]
          I4_append [of "pre @ [x]"] by simp_all
      moreover from a have "I5 e (pre @ [x])" using I5_prefix by blast
      ultimately show False using snoc False by simp
    qed
    with l show ?thesis by simp
  qed
qed

text \<open>What \<^verbatim>\<open>LoadOrder::IsValid\<close> decides on a sequence that is not empty and whose
  elements answer every query: it returns true exactly when I1 to I5 hold.\<close>

lemma LoadOrder_IsValid_char:
  assumes "lo \<noteq> []" and "list_all (answers e) lo"
  shows "LoadOrder_IsValid e g lo = Inr (I1 g lo \<and> I2 e lo \<and> I3 e lo \<and> I4 lo \<and> I5 e lo)"
proof -
  from assms(1) obtain first rest where lo: "lo = first # rest" by (cases lo) auto
  have "IsValid_loop e True [] lo =
          Inr (I2 e ([] @ lo) \<and> I3 e ([] @ lo) \<and> I4 ([] @ lo) \<and> I5 e ([] @ lo))"
    by (rule IsValid_loop_char) (simp_all add: I2_def I3_def I4_def I5_def assms(2))
  then show ?thesis
    by (auto simp: LoadOrder_IsValid_def lo I1_def Plugin_neq_def)
qed

subsection \<open>Masters before non-masters\<close>

lemma I2_Cons:
  "I2 e (x # xs) = ((\<forall>b \<in> set xs. is_master e b \<longrightarrow> is_master e x) \<and> I2 e xs)"
  by (simp add: I2_def)

lemma I2_masters_prefix:
  "I2 e r \<Longrightarrow> i < length r \<Longrightarrow> is_master e (r ! i) = (i < masters_count e r)"
proof (induction r arbitrary: i)
  case Nil
  then show ?case by simp
next
  case (Cons x xs)
  show ?case
  proof (cases "is_master e x")
    case True
    with Cons show ?thesis
      by (cases i) (auto simp: I2_Cons masters_count_def)
  next
    case False
    with Cons.prems have none: "\<forall>b \<in> set xs. \<not> is_master e b"
      by (auto simp: I2_Cons)
    then have "filter (is_master e) xs = []" by (simp add: filter_empty_conv)
    with False have c: "masters_count e (x # xs) = 0" by (simp add: masters_count_def)
    from none Cons.prems(2) False have "\<not> is_master e ((x # xs) ! i)"
      by (cases i) auto
    with c show ?thesis by simp
  qed
qed

lemma masters_count_le: "masters_count e r \<le> length r"
  by (simp add: masters_count_def)

lemma I2_take_masters:
  assumes "I2 e r" "k \<le> length r"
  shows "(\<forall>a \<in> set (take k r). is_master e a) = (k \<le> masters_count e r)"
proof -
  have "(\<forall>a \<in> set (take k r). is_master e a) = (\<forall>i < k. is_master e (r ! i))"
    using assms(2) by (auto simp: all_set_conv_all_nth)
  also have "\<dots> = (\<forall>i < k. i < masters_count e r)"
    using assms I2_masters_prefix by auto
  also have "\<dots> = (k \<le> masters_count e r)"
    by (metis less_le_trans linorder_not_less order_less_irrefl)
  finally show ?thesis .
qed

lemma I2_drop_nonmasters:
  assumes "I2 e r" "k \<le> length r"
  shows "(\<forall>b \<in> set (drop k r). \<not> is_master e b) = (masters_count e r \<le> k)"
proof -
  have "(\<forall>b \<in> set (drop k r). \<not> is_master e b) =
          (\<forall>i < length r - k. \<not> is_master e (r ! (k + i)))"
    using assms(2) by (auto simp: all_set_conv_all_nth)
  also have "\<dots> = (\<forall>i < length r - k. \<not> k + i < masters_count e r)"
    using assms I2_masters_prefix by auto
  also have "\<dots> = (masters_count e r \<le> k)"
  proof
    assume a: "\<forall>i < length r - k. \<not> k + i < masters_count e r"
    show "masters_count e r \<le> k"
    proof (rule ccontr)
      assume "\<not> masters_count e r \<le> k"
      then have "k < masters_count e r" by simp
      moreover have "masters_count e r \<le> length r" by (rule masters_count_le)
      ultimately have "0 < length r - k" "k + 0 < masters_count e r" by simp_all
      with a show False by blast
    qed
  next
    assume "masters_count e r \<le> k"
    then show "\<forall>i < length r - k. \<not> k + i < masters_count e r" by simp
  qed
  finally show ?thesis .
qed

lemma I2_insert:
  assumes "I2 e r" "k \<le> length r"
  shows "I2 e (take k r @ x # drop k r) =
           (if is_master e x then k \<le> masters_count e r else masters_count e r \<le> k)"
proof -
  have r: "I2 e (take k r @ drop k r)" using assms(1) by simp
  then have parts: "I2 e (take k r)" "I2 e (drop k r)"
    "\<forall>a \<in> set (take k r). \<forall>b \<in> set (drop k r). is_master e b \<longrightarrow> is_master e a"
    unfolding I2_append by simp_all
  have "I2 e (take k r @ x # drop k r) =
          ((\<forall>b \<in> set (drop k r). is_master e b \<longrightarrow> is_master e x) \<and>
           (\<forall>a \<in> set (take k r). is_master e x \<longrightarrow> is_master e a))"
    using parts by (auto simp: I2_append I2_Cons)
  also have "\<dots> = (if is_master e x then (\<forall>a \<in> set (take k r). is_master e a)
                     else (\<forall>b \<in> set (drop k r). \<not> is_master e b))"
    by auto
  also have "\<dots> = (if is_master e x then k \<le> masters_count e r else masters_count e r \<le> k)"
    using I2_take_masters [OF assms] I2_drop_nonmasters [OF assms] by simp
  finally show ?thesis .
qed

lemma I2_erase: "I2 e lo \<Longrightarrow> I2 e (take p lo @ drop (Suc p) lo)"
proof -
  assume "I2 e lo"
  then have a: "I2 e (take p lo @ drop p lo)" by simp
  have d: "drop (Suc p) lo = drop 1 (drop p lo)" by simp
  have s: "set (drop (Suc p) lo) \<subseteq> set (drop p lo)"
    unfolding d by (rule set_drop_subset)
  have "I2 e (drop (Suc p) lo)"
    using a unfolding I2_append d I2_def by (simp add: sorted_wrt_drop)
  with a s show ?thesis
    unfolding I2_append by blast
qed

lemma I2_others: "I2 e lo \<Longrightarrow> I2 e (others plugin lo)"
  by (simp add: others_def I2_erase)

lemma Move_others:
  assumes "pos \<le> length lo"
  shows "Move pos plugin lo =
           Some (take (landing pos plugin lo) (others plugin lo) @ plugin #
                 drop (landing pos plugin lo) (others plugin lo)) \<and>
         landing pos plugin lo \<le> length (others plugin lo)"
proof (cases "Find plugin lo < length lo")
  case True
  with assms show ?thesis
    by (auto simp: Move_present others_def landing_def)
next
  case False
  then have "Find plugin lo = length lo" using Find_le [of plugin lo] by simp
  with assms show ?thesis
    by (simp add: Move_absent others_def landing_def)
qed

lemma Move_keeps_I2_iff:
  assumes "I2 e lo" "pos \<le> length lo"
  shows "\<exists>lo'. Move pos plugin lo = Some lo' \<and>
           I2 e lo' =
             (if is_master e plugin
              then landing pos plugin lo \<le> masters_count e (others plugin lo)
              else masters_count e (others plugin lo) \<le> landing pos plugin lo)"
  using Move_others [OF assms(2), of plugin] I2_insert [OF I2_others [OF assms(1)]]
  by auto

subsection \<open>The timestamp loop of LoadOrder::Save\<close>

lemma same_plugins_refl: "same_plugins e e"
  by (simp add: same_plugins_def)

lemma same_plugins_trans: "same_plugins e e1 \<Longrightarrow> same_plugins e1 e2 \<Longrightarrow> same_plugins e e2"
  unfolding same_plugins_def
  by (metis (no_types, lifting) env.surjective env.update_convs(2) env.update_convs(6))

lemma same_plugins_none:
  "same_plugins e e' \<Longrightarrow> (plugin_files e' f = None) = (plugin_files e f = None)"
  unfolding same_plugins_def by (metis domIff)

lemma same_plugins_fields:
  assumes "same_plugins e e'"
  shows "file_id e' = file_id e" "header_master e' = header_master e"
    "read_only e' = read_only e" "status_error e' = status_error e"
    "folder_time e' = folder_time e" "what_of e' = what_of e"
proof -
  from assms have "e' = e\<lparr>plugin_files := plugin_files e', text_files := text_files e'\<rparr>"
    by (simp add: same_plugins_def)
  then have "file_id e' = file_id (e\<lparr>plugin_files := plugin_files e', text_files := text_files e'\<rparr>)"
    "header_master e' = header_master (e\<lparr>plugin_files := plugin_files e', text_files := text_files e'\<rparr>)"
    "read_only e' = read_only (e\<lparr>plugin_files := plugin_files e', text_files := text_files e'\<rparr>)"
    "status_error e' = status_error (e\<lparr>plugin_files := plugin_files e', text_files := text_files e'\<rparr>)"
    "folder_time e' = folder_time (e\<lparr>plugin_files := plugin_files e', text_files := text_files e'\<rparr>)"
    "what_of e' = what_of (e\<lparr>plugin_files := plugin_files e', text_files := text_files e'\<rparr>)"
    by simp_all
  then show "file_id e' = file_id e" "header_master e' = header_master e"
    "read_only e' = read_only e" "status_error e' = status_error e"
    "folder_time e' = folder_time e" "what_of e' = what_of e"
    by simp_all
qed

lemma same_plugins_ghosted:
  assumes "same_plugins e e'"
  shows "ghosted e' p = ghosted e p"
  using same_plugins_none [OF assms] same_plugins_fields(1) [OF assms]
  by (simp add: ghosted_def)

lemma same_plugins_disk_name:
  assumes "same_plugins e e'"
  shows "disk_name e' p = disk_name e p"
  using same_plugins_ghosted [OF assms] by (simp add: disk_name_def)

lemma same_plugins_disk_file:
  assumes "same_plugins e e'"
  shows "disk_file e' p = disk_file e p"
  using same_plugins_disk_name [OF assms] same_plugins_fields(1) [OF assms]
  by (simp add: disk_file_def)

lemma same_plugins_is_master:
  assumes "same_plugins e e'"
  shows "is_master e' p = is_master e p"
  using same_plugins_disk_name [OF assms] same_plugins_fields(2) [OF assms]
  by (simp add: is_master_def)

lemma same_plugins_I2: "same_plugins e e' \<Longrightarrow> I2 e' lo = I2 e lo"
  by (simp add: I2_def same_plugins_is_master)

lemma SetModTime_same:
  assumes "SetModTime e p t = Inr e'"
  shows "same_plugins e e'" "text_files e' = text_files e"
    "plugin_files e' = (plugin_files e)(disk_file e p \<mapsto> t)"
proof -
  note s = SetModTime_Inr [OF assms]
  from s show "same_plugins e e'" by (auto simp: same_plugins_def)
  from s(1) show "text_files e' = text_files e" by simp
  from s(1) show "plugin_files e' = (plugin_files e)(disk_file e p \<mapsto> t)" by simp
qed

lemma Save_timestamps_frame:
  "Save_timestamps e r ps = (e', x) \<Longrightarrow>
     same_plugins e e' \<and> text_files e' = text_files e \<and>
     (\<forall>f. f \<notin> disk_file e ` set ps \<longrightarrow> plugin_files e' f = plugin_files e f)"
proof (induction ps arbitrary: e r)
  case Nil
  then show ?case by (simp add: same_plugins_refl)
next
  case (Cons p ps)
  show ?case
  proof (cases "GetModTime e p")
    case (Inl a)
    with Cons.prems show ?thesis by (simp add: same_plugins_refl)
  next
    case (Inr t)
    show ?thesis
    proof (cases "r <s t")
      case True
      with Inr Cons.prems have "Save_timestamps e t ps = (e', x)" by simp
      from Cons.IH [OF this] show ?thesis by simp
    next
      case False
      show ?thesis
      proof (cases "SetModTime e p (r + 60)")
        case (Inl a)
        with False Inr Cons.prems show ?thesis by (simp add: same_plugins_refl)
      next
        case e1: (Inr e1)
        with False Inr Cons.prems have "Save_timestamps e1 (r + 60) ps = (e', x)" by simp
        from Cons.IH [OF this] have ih: "same_plugins e1 e'" "text_files e' = text_files e1"
          "\<forall>f. f \<notin> disk_file e1 ` set ps \<longrightarrow> plugin_files e' f = plugin_files e1 f"
          by simp_all
        note s = SetModTime_same [OF e1]
        have dn: "disk_file e1 = disk_file e"
          by (rule ext) (rule same_plugins_disk_file [OF s(1)])
        from ih s dn show ?thesis
          by (auto intro: same_plugins_trans)
      qed
    qed
  qed
qed

lemma GetModTime_cong:
  assumes "same_plugins e e'" "plugin_files e' (disk_file e p) = plugin_files e (disk_file e p)"
  shows "GetModTime e' p = GetModTime e p"
  using assms(2) same_plugins_disk_name [OF assms(1), of p]
    same_plugins_disk_file [OF assms(1), of p] same_plugins_fields(4,6) [OF assms(1)]
  by (simp add: GetModTime_eq split: option.splits)

text \<open>Signed 64-bit arithmetic where it does not leave the range.\<close>

lemma sint_add_60:
  fixes r :: time_t
  assumes "sint r + 60 < 2 ^ 63"
  shows "sint (r + 60) = sint r + 60"
proof -
  have "- (2 ^ 63) \<le> sint r" using sint_ge [of r] by simp
  then have "- (2 ^ 63) \<le> sint r + 60" by simp
  with assms have "signed_take_bit 63 (sint r + 60) = sint r + 60"
    by (simp add: signed_take_bit_int_eq_self)
  moreover have "sint (r + 60) = signed_take_bit 63 (sint r + sint (60 :: time_t))"
    by (simp add: sint_word_ariths)
  ultimately show ?thesis by simp
qed

lemma word_of_int_add_60:
  fixes r :: time_t
  shows "word_of_int (sint r + 60) = r + 60"
  by simp

lemma running_times_gt: "\<forall>t \<in> set (running_times r ts). r < t"
proof (induction ts arbitrary: r)
  case Nil
  then show ?case by simp
next
  case (Cons a ts)
  have "\<forall>t \<in> set (running_times a ts). a < t" "\<forall>t \<in> set (running_times (r + 60) ts). r + 60 < t"
    using Cons.IH by blast+
  then show ?case by auto
qed

lemma running_times_sorted: "sorted_wrt (<) (running_times r ts)"
  by (induction ts arbitrary: r) (auto simp: running_times_gt)

lemma spec_times_sorted: "sorted_wrt (<) (spec_times ts)"
  by (cases ts) (auto simp: spec_times_def running_times_gt running_times_sorted)

lemma Save_timestamps_times:
  "Save_timestamps e r ps = (e', None) \<Longrightarrow> distinct (map (disk_file e) ps) \<Longrightarrow>
   map (GetModTime e) ps = map Inr ts \<Longrightarrow>
   list_all (\<lambda>t. t < 2 ^ 63) (running_times (sint r) (map sint ts)) \<Longrightarrow>
   map (GetModTime e') ps =
     map (\<lambda>t. Inr (word_of_int t)) (running_times (sint r) (map sint ts))"
proof (induction ps arbitrary: e r ts)
  case Nil
  then show ?case by simp
next
  case (Cons p ps)
  from Cons.prems(3) obtain t ts' where ts: "ts = t # ts'" and t: "GetModTime e p = Inr t"
    and rest: "map (GetModTime e) ps = map Inr ts'"
    by (cases ts) auto
  from Cons.prems(2) have np: "disk_file e p \<notin> disk_file e ` set ps"
    and dist: "distinct (map (disk_file e) ps)" by simp_all
  show ?case
  proof (cases "r <s t")
    case True
    then have lt: "sint r < sint t" by (simp add: word_sless_alt)
    with t True Cons.prems(1) have sv: "Save_timestamps e t ps = (e', None)" by simp
    from Cons.prems(4) ts lt
    have bound: "list_all (\<lambda>t. t < 2 ^ 63) (running_times (sint t) (map sint ts'))" by simp
    from Save_timestamps_frame [OF sv] np
    have "same_plugins e e'" "plugin_files e' (disk_file e p) = plugin_files e (disk_file e p)"
      by simp_all
    then have "GetModTime e' p = Inr t" using t by (simp add: GetModTime_cong)
    with Cons.IH [OF sv dist rest bound] lt ts show ?thesis by simp
  next
    case False
    then have lt: "\<not> sint r < sint t" by (simp add: word_sless_alt)
    with Cons.prems(4) ts have b60: "sint r + 60 < 2 ^ 63"
      and bound': "list_all (\<lambda>t. t < 2 ^ 63) (running_times (sint r + 60) (map sint ts'))"
      by simp_all
    note s60 = sint_add_60 [OF b60]
    from bound' s60
    have bound: "list_all (\<lambda>t. t < 2 ^ 63) (running_times (sint (r + 60)) (map sint ts'))"
      by simp
    show ?thesis
    proof (cases "SetModTime e p (r + 60)")
      case (Inl a)
      with False t Cons.prems(1) show ?thesis by simp
    next
      case e1: (Inr e1)
      with False t Cons.prems(1) have sv: "Save_timestamps e1 (r + 60) ps = (e', None)" by simp
      note s = SetModTime_same [OF e1]
      have dn: "disk_file e1 = disk_file e"
        by (rule ext) (rule same_plugins_disk_file [OF s(1)])
      have rest1: "map (GetModTime e1) ps = map Inr ts'"
      proof -
        have "\<And>q. q \<in> set ps \<Longrightarrow> GetModTime e1 q = GetModTime e q"
        proof -
          fix q assume "q \<in> set ps"
          with np have "disk_file e q \<noteq> disk_file e p" by (metis imageI)
          then have "plugin_files e1 (disk_file e q) = plugin_files e (disk_file e q)"
            using s(3) by simp
          with s(1) show "GetModTime e1 q = GetModTime e q" by (rule GetModTime_cong)
        qed
        then have "map (GetModTime e1) ps = map (GetModTime e) ps" by simp
        with rest show ?thesis by simp
      qed
      from Save_timestamps_frame [OF sv] np dn
      have f: "same_plugins e1 e'"
        "plugin_files e' (disk_file e1 p) = plugin_files e1 (disk_file e1 p)"
        by simp_all
      from t have ok: "name p @ ''.ghost'' \<notin> status_error e" "disk_name e p \<notin> status_error e"
        by (auto simp: GetModTime_eq split: if_splits)
      have "GetModTime e1 p = Inr (r + 60)"
        using s(3) ok same_plugins_disk_name [OF s(1), of p]
          same_plugins_disk_file [OF s(1), of p] same_plugins_fields(4) [OF s(1)]
        by (simp add: GetModTime_eq)
      with f have "GetModTime e' p = Inr (r + 60)" by (simp add: GetModTime_cong)
      with Cons.IH [OF sv _ rest1 bound] dist dn lt ts s60 show ?thesis
        by (simp add: word_of_int_add_60)
    qed
  qed
qed

lemma sint_word_of_int_running:
  fixes r :: time_t
  assumes "list_all (\<lambda>t. t < 2 ^ 63) (running_times (sint r) ts)"
  shows "map (\<lambda>t. sint (word_of_int t :: time_t)) (running_times (sint r) ts) =
           running_times (sint r) ts"
proof -
  have "\<And>t. t \<in> set (running_times (sint r) ts) \<Longrightarrow> sint (word_of_int t :: time_t) = t"
  proof -
    fix t assume m: "t \<in> set (running_times (sint r) ts)"
    with running_times_gt have "sint r < t" by blast
    moreover have "- (2 ^ 63) \<le> sint r" using sint_ge [of r] by simp
    ultimately have lo: "- (2 ^ 63) \<le> t" by simp
    from m assms have hi: "t < 2 ^ 63" by (simp add: list_all_iff)
    have "sint (word_of_int t :: time_t) = signed_take_bit 63 t"
      by (simp add: sint_sbintrunc')
    with lo hi show "sint (word_of_int t :: time_t) = t"
      by (simp add: signed_take_bit_int_eq_self)
  qed
  then show ?thesis by (simp add: map_idI)
qed

subsection \<open>LoadOrder::Save\<close>

lemma write_file_same: "same_plugins e (write_file e path out)"
  by (simp add: same_plugins_def write_file_def)

lemma ActivePlugins_Load_loadOrder: "loadOrder (fst (ActivePlugins_Load e g)) = loadOrder g"
  by (simp add: ActivePlugins_Load_def Let_def split: option.splits prod.splits sum.splits)

lemma ActivePlugins_Save_same: "same_plugins e (fst (ActivePlugins_Save e g))"
  by (simp add: ActivePlugins_Save_def Let_def write_file_same same_plugins_refl
      split: prod.splits)

lemma LoadOrder_Save_timestamp:
  assumes "LoadOrderMethod g = LIBLO_METHOD_TIMESTAMP"
    and "LoadOrder_Save e g = ((e', g'), x)"
  shows "loadOrder g' = loadOrder g \<and> same_plugins e e' \<and>
         (x = None \<longrightarrow>
            (\<exists>first rest r. loadOrder g = first # rest \<and> GetModTime e first = Inr r \<and>
               Save_timestamps e r rest = (e', None)))"
proof (cases "loadOrder g")
  case Nil
  with assms show ?thesis by (auto simp: LoadOrder_Save_def same_plugins_refl)
next
  case (Cons first rest)
  show ?thesis
  proof (cases "GetModTime e first")
    case (Inl a)
    with Cons assms show ?thesis by (auto simp: LoadOrder_Save_def same_plugins_refl)
  next
    case (Inr r)
    obtain e1 x1 where s: "Save_timestamps e r rest = (e1, x1)" by (cases "Save_timestamps e r rest")
    from Save_timestamps_frame [OF s] have sp: "same_plugins e e1" by simp
    from assms Cons Inr s have "e' = e1 \<and> loadOrder g' = loadOrder g \<and> (x = None \<longrightarrow> x1 = None)"
      by (auto simp: LoadOrder_Save_def split: option.splits)
    with sp s Cons Inr show ?thesis by auto
  qed
qed

lemma LoadOrder_Save_textfile:
  assumes "LoadOrderMethod g \<noteq> LIBLO_METHOD_TIMESTAMP"
    and "LoadOrder_Save e g = ((e', g'), x)"
  shows "loadOrder g' = loadOrder g \<and> same_plugins e e'"
proof (cases "LoadOrderFile g \<in> no_write e")
  case True
  with assms show ?thesis by (auto simp: LoadOrder_Save_def same_plugins_refl)
next
  case False
  let ?e1 = "write_file e (LoadOrderFile g)
               (concat (map (\<lambda>it. Name it @ [CHR 0x0A]) (loadOrder g)))"
  show ?thesis
  proof (cases "ActivePlugins_HasChanged ?e1 g")
    case (Inl a)
    with assms False show ?thesis
      by (auto simp: LoadOrder_Save_def Let_def write_file_same)
  next
    case (Inr changed)
    obtain g1 l1 where gl:
      "(if changed then ActivePlugins_Load ?e1 g else (g, None)) = (g1, l1)"
      by fastforce
    obtain e2 x2 where sv: "ActivePlugins_Save ?e1 g1 = (e2, x2)"
      by fastforce
    have "g1 = fst (ActivePlugins_Load ?e1 g) \<or> g1 = g"
      using gl by (auto split: if_splits)
    then have lo1: "loadOrder g1 = loadOrder g"
      using ActivePlugins_Load_loadOrder by auto
    have sp1: "same_plugins e ?e1" by (rule write_file_same)
    have "same_plugins ?e1 (fst (ActivePlugins_Save ?e1 g1))" by (rule ActivePlugins_Save_same)
    with sv have "same_plugins ?e1 e2" by simp
    with sp1 have sp2: "same_plugins e e2" by (rule same_plugins_trans)
    have "LoadOrder_Save e g =
            (case l1 of
               Some x \<Rightarrow> ((?e1, g1), Some x)
             | None \<Rightarrow>
                 (case x2 of
                    Some x \<Rightarrow> ((e2, g1), Some x)
                  | None \<Rightarrow>
                      (case text_files e2 (LoadOrderFile g1) of
                         None \<Rightarrow>
                           ((e2, g1), Some (filesystem_error (what_of e2 (LoadOrderFile g1))))
                       | Some (old, t) \<Rightarrow> ((e2, g1\<lparr>loadOrder_mtime := t\<rparr>), None))))"
      unfolding LoadOrder_Save_def Let_def Inr sum.case gl sv prod.case
      using assms(1) False by (auto split: option.splits)
    with assms(2) lo1 sp1 sp2 show ?thesis
      by (auto split: option.splits)
  qed
qed

lemma LoadOrder_Save_frame:
  "LoadOrder_Save e g = ((e', g'), x) \<Longrightarrow> loadOrder g' = loadOrder g \<and> same_plugins e e'"
  using LoadOrder_Save_timestamp LoadOrder_Save_textfile by blast

subsection \<open>ActivePlugins::Save in closed form\<close>

lemma str_find_bound: "str_find s pat = Some pos \<Longrightarrow> pos + length pat \<le> length s"
proof (induction s arbitrary: pos)
  case Nil
  then show ?case by (simp split: if_splits)
next
  case (Cons c cs)
  show ?case
  proof (cases "take (length pat) (c # cs) = pat")
    case True
    then have "length (take (length pat) (c # cs)) = length pat" by simp
    then have "length pat \<le> length (c # cs)" by simp
    with True Cons.prems show ?thesis by simp
  next
    case False
    with Cons.prems obtain q where "str_find cs pat = Some q" "pos = Suc q" by auto
    with Cons.IH show ?thesis by simp
  qed
qed

lemma str_find_Some:
  "str_find s pat = Some pos \<Longrightarrow> take (pos + length pat) s = take pos s @ pat"
proof (induction s arbitrary: pos)
  case Nil
  then show ?case by (simp split: if_splits)
next
  case (Cons c cs)
  show ?case
  proof (cases "take (length pat) (c # cs) = pat")
    case True
    with Cons.prems show ?thesis by simp
  next
    case False
    with Cons.prems obtain q where q: "str_find cs pat = Some q" "pos = Suc q" by auto
    with Cons.IH [OF q(1)] show ?thesis by simp
  qed
qed

lemma str_find_least:
  "str_find s pat = Some pos \<Longrightarrow> i < pos \<Longrightarrow> take (length pat) (drop i s) \<noteq> pat"
proof (induction s arbitrary: pos i)
  case Nil
  then show ?case by (simp split: if_splits)
next
  case (Cons c cs)
  show ?case
  proof (cases "take (length pat) (c # cs) = pat")
    case True
    with Cons.prems show ?thesis by simp
  next
    case False
    with Cons.prems obtain q where q: "str_find cs pat = Some q" "pos = Suc q" by auto
    show ?thesis
    proof (cases i)
      case 0
      with False show ?thesis by simp
    next
      case (Suc j)
      with Cons.prems(2) q(2) have "j < q" by simp
      from Cons.IH [OF q(1) this] Suc show ?thesis by simp
    qed
  qed
qed

lemma occurs_iff: "occurs pat s = (\<exists>i \<le> length s. take (length pat) (drop i s) = pat)"
  unfolding occurs_def list_ex_iff
  by (metis atLeastLessThan_iff le0 less_Suc_eq_le set_upt)

lemma occurs_Cons:
  "occurs pat (c # cs) = (take (length pat) (c # cs) = pat \<or> occurs pat cs)"
proof -
  have "(\<exists>i \<le> Suc (length cs). take (length pat) (drop i (c # cs)) = pat) =
        (take (length pat) (drop 0 (c # cs)) = pat \<or>
         (\<exists>i \<le> length cs. take (length pat) (drop (Suc i) (c # cs)) = pat))"
    by (metis Suc_le_mono le0 not0_implies_Suc)
  then show ?thesis by (simp add: occurs_iff)
qed

lemma str_find_None: "(str_find s pat = None) = (\<not> occurs pat s)"
proof (induction s)
  case Nil
  show ?case by (auto simp: occurs_iff)
next
  case (Cons c cs)
  then show ?case by (simp add: occurs_Cons)
qed

lemma occurs_append: "occurs pat (pre @ pat @ post)"
  unfolding occurs_iff by (rule exI [of _ "length pre"]) simp

lemma write_unordered_closed:
  "write_unordered e g i ps (out, bad) =
     (out @ concat (map (\<lambda>(j, n). entry_text e g j n) (zip [i..<i + length ps] (map Name ps))),
      bad_after e bad (map Name ps))"
proof (induction ps arbitrary: i out bad)
  case Nil
  show ?case by (simp add: bad_after_def)
next
  case (Cons p ps)
  have u: "[i..<i + length (p # ps)] = i # [Suc i..<Suc i + length ps]"
    by (subst upt_rec) simp
  show ?case
    unfolding u
    by (cases "Utf8ToEnc e (Name p)")
       (simp_all add: Cons.IH Let_def entry_text_def bad_after_def)
qed

lemma write_ordered_closed:
  assumes "GameId g \<noteq> LIBLO_GAME_TES3"
  shows "write_ordered e g lo (out, bad) =
     (out @ concat (map (\<lambda>n. entry_text e g 0 n)
              (map Name (filter (\<lambda>it. contains (activePlugins g) it \<and>
                            \<not> (GameId g = LIBLO_GAME_TES5 \<and> Name it = MasterFile g)) lo))),
      bad_after e bad
        (map Name (filter (\<lambda>it. contains (activePlugins g) it \<and>
                            \<not> (GameId g = LIBLO_GAME_TES5 \<and> Name it = MasterFile g)) lo)))"
proof (induction lo arbitrary: out bad)
  case Nil
  show ?case by (simp add: bad_after_def)
next
  case (Cons p ps)
  show ?case
  proof (cases "\<not> contains (activePlugins g) p \<or>
                (GameId g = LIBLO_GAME_TES5 \<and> Name p = MasterFile g)")
    case True
    then have "write_ordered e g (p # ps) (out, bad) = write_ordered e g ps (out, bad)"
      by auto
    with True Cons.IH show ?thesis by auto
  next
    case False
    show ?thesis
    proof (cases "Utf8ToEnc e (Name p)")
      case (Inl w)
      with False have "write_ordered e g (p # ps) (out, bad) = write_ordered e g ps (out, w)"
        by auto
      with False Inl assms Cons.IH show ?thesis
        by (auto simp: entry_text_def bad_after_def)
    next
      case (Inr b)
      with False have "write_ordered e g (p # ps) (out, bad) =
                         write_ordered e g ps (out @ b @ [CHR 0x0A], bad)"
        by auto
      with False Inr assms Cons.IH show ?thesis
        by (auto simp: entry_text_def bad_after_def)
    qed
  qed
qed

lemma map_zip_snd:
  "length xs = length ns \<Longrightarrow> map (\<lambda>(i, n). f n) (zip xs ns) = map f ns"
  by (induction xs ns rule: list_induct2) auto

lemma entries_text_no_key:
  assumes "GameId g \<noteq> LIBLO_GAME_TES3"
  shows "entries_text e g ns = concat (map (\<lambda>n. entry_text e g 0 n) ns)"
proof -
  have "map (\<lambda>(i, n). entry_text e g i n) (zip [0..<length ns] ns) =
        map (\<lambda>(i, n). entry_text e g 0 n) (zip [0..<length ns] ns)"
    using assms by (simp add: entry_text_def)
  also have "\<dots> = map (\<lambda>n. entry_text e g 0 n) ns"
    by (rule map_zip_snd) simp
  finally show ?thesis by (simp add: entries_text_def)
qed

lemma ActivePlugins_Save_closed:
  assumes "ActivePluginsFile g \<notin> no_write e"
  shows "ActivePlugins_Save e g =
           (write_file e (ActivePluginsFile g)
              (ini_prefix e g @ entries_text e g (saved_names g)),
            if bad_after e [] (saved_names g) \<noteq> []
            then Some (error LIBLO_WARN_BAD_FILENAME (bad_after e [] (saved_names g)))
            else None)"
proof -
  let ?c = "fileToBuffer e (ActivePluginsFile g)"
  let ?settings = "if GameId g = LIBLO_GAME_TES3 then
               (case str_find ?c ''[Game Files]'' of
                  None \<Rightarrow> []
                | Some pos \<Rightarrow> take (pos + 12) ?c)
             else []"
  have out: "(if ?settings \<noteq> [] then ?settings @ [CHR 0x0A] else []) = ini_prefix e g"
  proof (cases "str_find ?c ''[Game Files]''")
    case None
    then show ?thesis by (simp add: ini_prefix_def)
  next
    case (Some pos)
    from str_find_bound [OF Some] have "take (pos + 12) ?c \<noteq> []" by auto
    with Some show ?thesis by (simp add: ini_prefix_def)
  qed
  show ?thesis
  proof (cases "LoadOrderMethod g = LIBLO_METHOD_TIMESTAMP")
    case True
    then have n: "saved_names g = map Name (activePlugins g)" by (simp add: saved_names_def)
    show ?thesis
      unfolding ActivePlugins_Save_def Let_def out
      using assms True
      by (simp add: write_unordered_closed n entries_text_def)
  next
    case False
    then have id: "GameId g \<noteq> LIBLO_GAME_TES3" by (auto simp: LoadOrderMethod_def split: if_splits)
    show ?thesis
      unfolding ActivePlugins_Save_def Let_def out
      using assms False
      by (simp add: write_ordered_closed [OF id] entries_text_no_key [OF id] saved_names_def)
  qed
qed

lemma bad_after_last:
  assumes "\<forall>n w. Utf8ToEnc e n = Inl w \<longrightarrow> w = n \<and> n \<noteq> []"
  shows "bad_after e bad ns =
           (if failing_names e ns = [] then bad else last (failing_names e ns))"
proof (induction ns rule: rev_induct)
  case Nil
  show ?case by (simp add: bad_after_def failing_names_def)
next
  case (snoc n ns)
  show ?case
  proof (cases "Utf8ToEnc e n")
    case (Inl w)
    with assms have "w = n" by blast
    with Inl show ?thesis by (simp add: bad_after_def failing_names_def)
  next
    case (Inr b)
    with snoc show ?thesis by (simp add: bad_after_def failing_names_def)
  qed
qed

lemma failing_names_nonempty:
  assumes "\<forall>n w. Utf8ToEnc e n = Inl w \<longrightarrow> w = n \<and> n \<noteq> []"
    and "failing_names e ns \<noteq> []"
  shows "last (failing_names e ns) \<noteq> []"
proof -
  from assms(2) have "last (failing_names e ns) \<in> set (failing_names e ns)" by simp
  then have "isl (Utf8ToEnc e (last (failing_names e ns)))" by (simp add: failing_names_def)
  then obtain w where "Utf8ToEnc e (last (failing_names e ns)) = Inl w"
    by (cases "Utf8ToEnc e (last (failing_names e ns))") auto
  with assms(1) show ?thesis by blast
qed

lemma entries_text_holds:
  assumes "n \<in> set ns" "Utf8ToEnc e n = Inr bytes"
  shows "\<exists>pre post. entries_text e g ns = pre @ bytes @ [CHR 0x0A] @ post"
proof -
  from assms(1) obtain i where i: "i < length ns" "ns ! i = n" by (auto simp: in_set_conv_nth)
  then have "(i, n) \<in> set (zip [0..<length ns] ns)"
    by (auto simp: in_set_zip intro!: exI [of _ i])
  then have "entry_text e g i n \<in> set (map (\<lambda>(i, n). entry_text e g i n) (zip [0..<length ns] ns))"
    by force
  then obtain xs ys where
    "map (\<lambda>(i, n). entry_text e g i n) (zip [0..<length ns] ns) = xs @ entry_text e g i n # ys"
    by (meson split_list)
  then have "entries_text e g ns = concat xs @ entry_text e g i n @ concat ys"
    by (simp add: entries_text_def)
  moreover obtain k where "entry_text e g i n = k @ bytes @ [CHR 0x0A]"
    using assms(2) by (simp add: entry_text_def)
  ultimately have "entries_text e g ns = (concat xs @ k) @ bytes @ [CHR 0x0A] @ concat ys"
    by simp
  then show ?thesis by blast
qed

subsection \<open>ActivePlugins::Load and ActivePlugins::IsValid\<close>

lemma contains_emplace_self: "contains (emplace e p s) p"
  by (simp add: contains_emplace Plugin_eq_refl)

lemma ActivePlugins_Load_TES5_members:
  assumes "GameId g = LIBLO_GAME_TES5"
    and "ActivePlugins_Load e g = (g', None)"
  shows "contains (activePlugins g') (Plugin_of ''Skyrim.esm'')"
    and "contains (read_plain e (getlines (fileToBuffer e (ActivePluginsFile g))) [])
           (Plugin_of ''Skyrim.esm'') \<Longrightarrow>
         on_disk e (Plugin_of ''Update.esm'') \<Longrightarrow>
         contains (activePlugins g') (Plugin_of ''Update.esm'')"
proof -
  from assms(2) obtain old t where f: "text_files e (ActivePluginsFile g) = Some (old, t)"
    by (auto simp: ActivePlugins_Load_def split: option.splits)
  let ?s = "read_plain e (getlines old) []"
  show "contains (activePlugins g') (Plugin_of ''Skyrim.esm'')"
  proof (cases "contains ?s (Plugin_of ''Skyrim.esm'')")
    case False
    with assms f have "activePlugins g' = emplace e (Plugin_of ''Skyrim.esm'') ?s"
      by (auto simp: ActivePlugins_Load_def Let_def)
    then show ?thesis by (simp add: contains_emplace_self)
  next
    case True
    with assms f have "activePlugins g' = ?s \<or>
        activePlugins g' = emplace e (Plugin_of ''Update.esm'') ?s"
      by (auto simp: ActivePlugins_Load_def Let_def split: sum.splits if_splits)
    with True show ?thesis by (auto simp: contains_emplace)
  qed
  show "contains (activePlugins g') (Plugin_of ''Update.esm'')"
    if "contains (read_plain e (getlines (fileToBuffer e (ActivePluginsFile g))) [])
           (Plugin_of ''Skyrim.esm'')" "on_disk e (Plugin_of ''Update.esm'')"
  proof -
    from that(1) f have c: "contains ?s (Plugin_of ''Skyrim.esm'')"
      by (simp add: fileToBuffer_def)
    from assms f c obtain found where x: "Exists e (Plugin_of ''Update.esm'') = Inr found"
      by (auto simp: ActivePlugins_Load_def Let_def split: sum.splits)
    from Exists_Inr [OF x] that(2) have found by simp
    with assms f c x have "activePlugins g' =
        (if \<not> contains ?s (Plugin_of ''Update.esm'')
         then emplace e (Plugin_of ''Update.esm'') ?s else ?s)"
      by (auto simp: ActivePlugins_Load_def Let_def)
    then show ?thesis by (simp add: contains_emplace_self)
  qed
qed

lemma ActivePlugins_IsValid_loop_char:
  assumes "\<forall>p. contains hashset p = contains pre p"
    and "I3 e pre" "I5 e pre"
    and "list_all (answers e) rest"
  shows "ActivePlugins_IsValid_loop e hashset rest =
           Inr (I3 e (pre @ rest) \<and> I5 e (pre @ rest))"
  using assms
proof (induction rest arbitrary: pre hashset)
  case Nil
  then show ?case by simp
next
  case (Cons x xs)
  let ?ok = "on_disk e x \<and> list_all (contains hashset) (masters_of e x)"
  from Cons.prems(4) have ax: "answers e x" and axs: "list_all (answers e) xs" by simp_all
  note q = answers_Exists [OF ax] answers_GetMasters [OF ax]
  have hs: "\<And>p. contains hashset p = contains pre p" using Cons.prems(1) by simp
  have snoc: "(I3 e (pre @ [x]) \<and> I5 e (pre @ [x])) = ?ok"
    using Cons.prems(2,3) by (auto simp: I3_snoc I5_snoc hs list_all_iff)
  show ?case
  proof (cases ?ok)
    case True
    have step: "ActivePlugins_IsValid_loop e hashset (x # xs) =
                  ActivePlugins_IsValid_loop e (emplace e x hashset) xs"
      using True by (auto simp: q)
    have inv: "I3 e (pre @ [x])" "I5 e (pre @ [x])" using snoc True by simp_all
    have hs': "\<forall>p. contains (emplace e x hashset) p = contains (pre @ [x]) p"
      by (simp add: contains_emplace contains_snoc hs)
    from Cons.IH [OF hs' inv axs] step show ?thesis by simp
  next
    case False
    then have l: "ActivePlugins_IsValid_loop e hashset (x # xs) = Inr False"
      by (auto simp: q)
    have "\<not> (I3 e ((pre @ [x]) @ xs) \<and> I5 e ((pre @ [x]) @ xs))"
    proof
      assume a: "I3 e ((pre @ [x]) @ xs) \<and> I5 e ((pre @ [x]) @ xs)"
      then have "I3 e (pre @ [x])" unfolding I3_append [of e "pre @ [x]"] by simp
      moreover from a have "I5 e (pre @ [x])" using I5_prefix by blast
      ultimately show False using snoc False by simp
    qed
    with l show ?thesis by simp
  qed
qed

text \<open>What \<^verbatim>\<open>ActivePlugins::IsValid\<close> decides when no query fails: every member
  exists, every master of a member comes earlier in the iteration order of the set, the set
  has at most 255 members, and for TES5 it holds \<^verbatim>\<open>Skyrim.esm\<close>, and
  \<^verbatim>\<open>Update.esm\<close> when that exists.\<close>

lemma ActivePlugins_IsValid_char:
  assumes "list_all (answers e) ap" and "answers e (Plugin_of ''Update.esm'')"
  shows "ActivePlugins_IsValid e g ap =
     Inr (A1 e ap \<and> I5 e ap \<and> A3 ap \<and>
      (GameId g = LIBLO_GAME_TES5 \<longrightarrow>
         contains ap (Plugin_of ''Skyrim.esm'') \<and>
         (on_disk e (Plugin_of ''Update.esm'') \<longrightarrow> contains ap (Plugin_of ''Update.esm''))))"
proof -
  have "ActivePlugins_IsValid_loop e [] ap = Inr (I3 e ([] @ ap) \<and> I5 e ([] @ ap))"
    by (rule ActivePlugins_IsValid_loop_char) (simp_all add: I3_def I5_def assms(1))
  then show ?thesis
    by (auto simp: ActivePlugins_IsValid_def A1_def I3_def A3_def
        answers_Exists [OF assms(2)])
qed

lemma I5_imp_A2: "I5 e ap \<Longrightarrow> A2 e ap"
proof -
  assume a: "I5 e ap"
  have "\<forall>p \<in> set ap. \<forall>m \<in> set (masters_of e p). contains ap m"
  proof (intro ballI)
    fix p m assume "p \<in> set ap" "m \<in> set (masters_of e p)"
    then obtain j where j: "j < length ap" "ap ! j = p" by (auto simp: in_set_conv_nth)
    with a \<open>m \<in> set (masters_of e p)\<close> have "contains (take j ap) m" by (auto simp: I5_iff)
    then show "contains ap m" by (auto simp: contains_iff dest: in_set_takeD)
  qed
  then show ?thesis by (simp add: A2_def list_all_iff)
qed

text \<open>
  Claim C1 at an input where the code departs from it. The game is TES5,
  \<^verbatim>\<open>plugins.txt\<close> lists \<^verbatim>\<open>Mod.esp\<close> only, and \<^verbatim>\<open>Update.esm\<close> exists on disk.
  \<^verbatim>\<open>ActivePlugins::Load\<close> succeeds and adds \<^verbatim>\<open>Skyrim.esm\<close>, but the
  \<^verbatim>\<open>else if\<close> keeps it from adding \<^verbatim>\<open>Update.esm\<close> in the same call: the set it
  leaves does not hold \<^verbatim>\<open>Update.esm\<close>, and \<^verbatim>\<open>ActivePlugins::IsValid\<close> rejects it.
\<close>

theorem ActivePlugins_Load_TES5_skips_update:
  "GameId skyrim = LIBLO_GAME_TES5 \<and>
   ActivePlugins_Load world skyrim =
     (skyrim\<lparr>activePlugins := [\<lparr>name = ''Mod.esp''\<rparr>, \<lparr>name = ''Skyrim.esm''\<rparr>]\<rparr>, None) \<and>
   Exists world (Plugin_of ''Update.esm'') = Inr True \<and>
   contains (activePlugins (fst (ActivePlugins_Load world skyrim))) (Plugin_of ''Skyrim.esm'') \<and>
   \<not> contains (activePlugins (fst (ActivePlugins_Load world skyrim))) (Plugin_of ''Update.esm'') \<and>
   ActivePlugins_IsValid world skyrim (activePlugins (fst (ActivePlugins_Load world skyrim))) =
     Inr False"
proof -
  have p: "Plugin_of ''Skyrim.esm'' = \<lparr>name = ''Skyrim.esm''\<rparr>"
    "Plugin_of ''Update.esm'' = \<lparr>name = ''Update.esm''\<rparr>"
    "Plugin_of ''Mod.esp'' = \<lparr>name = ''Mod.esp''\<rparr>"
    by (simp_all add: Plugin_of_def path_extension_def iequals_def)
  have i: "GameId skyrim = LIBLO_GAME_TES5" by (simp add: skyrim_def)
  have x: "Exists world \<lparr>name = ''Update.esm''\<rparr> = Inr True"
    by (simp add: Exists_def fs_exists_def world_def)
  have a: "answers world \<lparr>name = ''Update.esm''\<rparr>" "answers world \<lparr>name = ''Mod.esp''\<rparr>"
    "answers world \<lparr>name = ''Skyrim.esm''\<rparr>"
    by (simp_all add: answers_def world_def)
  have o: "on_disk world \<lparr>name = ''Update.esm''\<rparr>"
    using Exists_Inr [OF x] by simp
  have l: "ActivePlugins_Load world skyrim =
     (skyrim\<lparr>activePlugins := [\<lparr>name = ''Mod.esp''\<rparr>, \<lparr>name = ''Skyrim.esm''\<rparr>]\<rparr>, None)"
    unfolding ActivePlugins_Load_def p
    using x
    by (simp add: skyrim_def world_def emplace_def contains_def Plugin_eq_def Name_def
        iequals_def to_upper_def p)
  have c: "contains [\<lparr>name = ''Mod.esp''\<rparr>, \<lparr>name = ''Skyrim.esm''\<rparr>] \<lparr>name = ''Skyrim.esm''\<rparr>"
    "\<not> contains [\<lparr>name = ''Mod.esp''\<rparr>, \<lparr>name = ''Skyrim.esm''\<rparr>] \<lparr>name = ''Update.esm''\<rparr>"
    by (simp_all add: contains_def Plugin_eq_def Name_def iequals_def to_upper_def)
  have v: "ActivePlugins_IsValid world skyrim [\<lparr>name = ''Mod.esp''\<rparr>, \<lparr>name = ''Skyrim.esm''\<rparr>] =
             Inr False"
    using i o c a by (simp add: ActivePlugins_IsValid_char p)
  from i x l c v show ?thesis by (simp add: p)
qed

theorem ActivePlugins_Load_TES5_skips_update_witness:
  "snd (ActivePlugins_Load world skyrim) = None \<and>
   activePlugins (fst (ActivePlugins_Load world skyrim)) =
     [\<lparr>name = ''Mod.esp''\<rparr>, \<lparr>name = ''Skyrim.esm''\<rparr>]"
  using ActivePlugins_Load_TES5_skips_update by simp

text \<open>
  Claim C2 at an input where the code departs from it. In a TES5 game the active set holds
  \<^verbatim>\<open>Skyrim.esm\<close> and \<^verbatim>\<open>Update.esm\<close>, both on disk, and the header of
  \<^verbatim>\<open>Update.esm\<close> names \<^verbatim>\<open>Skyrim.esm\<close> as its master: the four invariants A1 to
  A4 hold. \<^verbatim>\<open>ActivePlugins::IsValid\<close> looks each master up among the members it has
  already passed, so it answers false when the set's iteration reaches \<^verbatim>\<open>Update.esm\<close>
  first, and true when it reaches \<^verbatim>\<open>Skyrim.esm\<close> first.
\<close>

theorem ActivePlugins_IsValid_iteration_order:
  "A1 world [\<lparr>name = ''Update.esm''\<rparr>, \<lparr>name = ''Skyrim.esm''\<rparr>] \<and>
   A2 world [\<lparr>name = ''Update.esm''\<rparr>, \<lparr>name = ''Skyrim.esm''\<rparr>] \<and>
   A3 [\<lparr>name = ''Update.esm''\<rparr>, \<lparr>name = ''Skyrim.esm''\<rparr>] \<and>
   A4 world skyrim [\<lparr>name = ''Update.esm''\<rparr>, \<lparr>name = ''Skyrim.esm''\<rparr>] \<and>
   ActivePlugins_IsValid world skyrim [\<lparr>name = ''Update.esm''\<rparr>, \<lparr>name = ''Skyrim.esm''\<rparr>] =
     Inr False \<and>
   ActivePlugins_IsValid world skyrim [\<lparr>name = ''Skyrim.esm''\<rparr>, \<lparr>name = ''Update.esm''\<rparr>] =
     Inr True"
proof -
  have p: "Plugin_of ''Skyrim.esm'' = \<lparr>name = ''Skyrim.esm''\<rparr>"
    "Plugin_of ''Update.esm'' = \<lparr>name = ''Update.esm''\<rparr>"
    by (simp_all add: Plugin_of_def path_extension_def iequals_def)
  have k: "MasterFile skyrim = ''Skyrim.esm''" "GameId skyrim = LIBLO_GAME_TES5"
    by (simp_all add: skyrim_def)
  have m: "GetMasters world \<lparr>name = ''Update.esm''\<rparr> = Inr [\<lparr>name = ''Skyrim.esm''\<rparr>]"
    "GetMasters world \<lparr>name = ''Skyrim.esm''\<rparr> = Inr []"
    by (simp_all add: GetMasters_def GetPluginMasters_def IsGhosted_def fs_exists_def
        world_def p)
  have x: "Exists world \<lparr>name = ''Update.esm''\<rparr> = Inr True"
    "Exists world \<lparr>name = ''Skyrim.esm''\<rparr> = Inr True"
    by (simp_all add: Exists_def fs_exists_def world_def)
  have o: "on_disk world \<lparr>name = ''Update.esm''\<rparr>" "on_disk world \<lparr>name = ''Skyrim.esm''\<rparr>"
    using x [THEN Exists_Inr] by simp_all
  have mo: "masters_of world \<lparr>name = ''Update.esm''\<rparr> = [\<lparr>name = ''Skyrim.esm''\<rparr>]"
    "masters_of world \<lparr>name = ''Skyrim.esm''\<rparr> = []"
    using m [THEN GetMasters_Inr] by simp_all
  have c: "contains [\<lparr>name = ''Update.esm''\<rparr>, \<lparr>name = ''Skyrim.esm''\<rparr>] \<lparr>name = ''Skyrim.esm''\<rparr>"
    "contains [\<lparr>name = ''Update.esm''\<rparr>, \<lparr>name = ''Skyrim.esm''\<rparr>] \<lparr>name = ''Update.esm''\<rparr>"
    "contains [\<lparr>name = ''Skyrim.esm''\<rparr>, \<lparr>name = ''Update.esm''\<rparr>] \<lparr>name = ''Skyrim.esm''\<rparr>"
    "contains [\<lparr>name = ''Skyrim.esm''\<rparr>, \<lparr>name = ''Update.esm''\<rparr>] \<lparr>name = ''Update.esm''\<rparr>"
    "contains [\<lparr>name = ''Skyrim.esm''\<rparr>] \<lparr>name = ''Skyrim.esm''\<rparr>"
    "\<not> contains [] \<lparr>name = ''Skyrim.esm''\<rparr>"
    by (simp_all add: contains_def Plugin_eq_def Name_def iequals_def)
  have a1: "A1 world [\<lparr>name = ''Update.esm''\<rparr>, \<lparr>name = ''Skyrim.esm''\<rparr>]"
    using o by (simp add: A1_def)
  have a2: "A2 world [\<lparr>name = ''Update.esm''\<rparr>, \<lparr>name = ''Skyrim.esm''\<rparr>]"
    using mo c by (simp add: A2_def)
  have a3: "A3 [\<lparr>name = ''Update.esm''\<rparr>, \<lparr>name = ''Skyrim.esm''\<rparr>]" by (simp add: A3_def)
  have a4: "A4 world skyrim [\<lparr>name = ''Update.esm''\<rparr>, \<lparr>name = ''Skyrim.esm''\<rparr>]"
    using c o by (simp add: A4_def k p)
  have f: "ActivePlugins_IsValid world skyrim
             [\<lparr>name = ''Update.esm''\<rparr>, \<lparr>name = ''Skyrim.esm''\<rparr>] = Inr False"
    using x m c by (simp add: ActivePlugins_IsValid_def)
  have e: "emplace world \<lparr>name = ''Skyrim.esm''\<rparr> [] = [\<lparr>name = ''Skyrim.esm''\<rparr>]"
    using c by (simp add: emplace_def)
  have t: "ActivePlugins_IsValid world skyrim
             [\<lparr>name = ''Skyrim.esm''\<rparr>, \<lparr>name = ''Update.esm''\<rparr>] = Inr True"
    using x m c by (simp add: ActivePlugins_IsValid_def e k p)
  from a1 a2 a3 a4 f t show ?thesis by simp
qed

theorem ActivePlugins_IsValid_iteration_order_witness:
  "ActivePlugins_IsValid world skyrim [\<lparr>name = ''Update.esm''\<rparr>, \<lparr>name = ''Skyrim.esm''\<rparr>] =
     Inr False \<and>
   ActivePlugins_IsValid world skyrim (rev [\<lparr>name = ''Update.esm''\<rparr>, \<lparr>name = ''Skyrim.esm''\<rparr>]) =
     Inr True"
  using ActivePlugins_IsValid_iteration_order by simp

text \<open>
  Claim C3, as amended. Under the timestamp method, for a load order whose elements stand
  for pairwise distinct files on disk and have the times \<open>ts\<close> before the call, and for
  which the times of the running-time rule (the running time starts at the first element's
  time; a later element keeps its time, which becomes the running time; any other element
  gets the running time plus 60 seconds, which becomes the running time), computed on the
  integers, all lie below \<open>2 ^ 63\<close>, the range of the signed 64-bit \<^verbatim>\<open>time_t\<close>: when
  \<^verbatim>\<open>LoadOrder::Save\<close> succeeds, the load order is not empty and not changed, and the
  times on disk, read in load order, are those of the rule. As signed values they increase
  strictly, so they are non-decreasing. For the times 100, 100, 50 the result is
  100, 160, 220.
\<close>

theorem timestamp_save_rule:
  assumes "LoadOrderMethod g = LIBLO_METHOD_TIMESTAMP"
    and "distinct (map (disk_file e) (loadOrder g))"
    and "map (GetModTime e) (loadOrder g) = map Inr ts"
    and "list_all (\<lambda>t. t < 2 ^ 63) (spec_times (map sint ts))"
    and "LoadOrder_Save e g = ((e', g'), None)"
  shows "loadOrder g \<noteq> [] \<and> loadOrder g' = loadOrder g \<and>
         map (GetModTime e') (loadOrder g') =
           map Inr (map word_of_int (spec_times (map sint ts))) \<and>
         map sint (map word_of_int (spec_times (map sint ts)) :: time_t list) =
           spec_times (map sint ts) \<and>
         sorted_wrt (\<lambda>a b. a <s b) (map word_of_int (spec_times (map sint ts)) :: time_t list) \<and>
         sorted_wrt (\<lambda>a b. a \<le>s b) (map word_of_int (spec_times (map sint ts)) :: time_t list)"
proof -
  let ?out = "map word_of_int (spec_times (map sint ts)) :: time_t list"
  from LoadOrder_Save_timestamp [OF assms(1,5)]
  obtain first rest r where lo: "loadOrder g' = loadOrder g" and sp: "same_plugins e e'"
    and c: "loadOrder g = first # rest" and r: "GetModTime e first = Inr r"
    and sv: "Save_timestamps e r rest = (e', None)"
    by auto
  from assms(3) c r obtain ts' where ts: "ts = r # ts'"
    and rest: "map (GetModTime e) rest = map Inr ts'"
    by (cases ts) auto
  from assms(2) c have np: "disk_file e first \<notin> disk_file e ` set rest"
    and dist: "distinct (map (disk_file e) rest)" by simp_all
  from assms(4) ts
  have bound: "list_all (\<lambda>t. t < 2 ^ 63) (running_times (sint r) (map sint ts'))"
    by (simp add: spec_times_def)
  from Save_timestamps_frame [OF sv] np
  have "plugin_files e' (disk_file e first) = plugin_files e (disk_file e first)" by simp
  with sp have "GetModTime e' first = GetModTime e first" by (rule GetModTime_cong)
  moreover have "map (GetModTime e') rest =
      map (\<lambda>t. Inr (word_of_int t)) (running_times (sint r) (map sint ts'))"
    using sv dist rest bound by (rule Save_timestamps_times)
  ultimately have out: "map (GetModTime e') (loadOrder g') = map Inr ?out"
    using lo c r ts by (simp add: spec_times_def)
  have rd: "map sint ?out = spec_times (map sint ts)"
    using sint_word_of_int_running [OF bound] ts by (simp add: spec_times_def comp_def)
  have "sorted_wrt (<) (map sint ?out)"
    unfolding rd by (rule spec_times_sorted)
  then have strict: "sorted_wrt (\<lambda>a b. a <s b) ?out"
    by (simp add: sorted_wrt_map word_sless_alt)
  then have "sorted_wrt (\<lambda>a b. a \<le>s b) ?out"
    by (rule sorted_wrt_mono_rel [rotated]) (simp add: word_sless_alt word_sle_eq)
  with out rd strict lo c show ?thesis by simp
qed

theorem timestamp_save_rule_witness:
  "LoadOrderMethod oblivion = LIBLO_METHOD_TIMESTAMP \<and>
   distinct (map (disk_file world) (loadOrder oblivion)) \<and>
   map (GetModTime world) (loadOrder oblivion) = map Inr [100, 100, 50] \<and>
   list_all (\<lambda>t. t < 2 ^ 63) (spec_times (map sint [100, 100, 50 :: time_t])) \<and>
   snd (LoadOrder_Save world oblivion) = None \<and>
   map (GetModTime (fst (fst (LoadOrder_Save world oblivion)))) (loadOrder oblivion) =
     [Inr 100, Inr 160, Inr 220]"
proof -
  have m: "LoadOrderMethod oblivion = LIBLO_METHOD_TIMESTAMP"
    by (simp add: LoadOrderMethod_def oblivion_def)
  have d: "distinct (map (disk_file world) (loadOrder oblivion))"
    by (simp add: oblivion_def disk_file_def disk_name_def ghosted_def world_def)
  have t: "map (GetModTime world) (loadOrder oblivion) = map Inr [100, 100, 50]"
    by (simp add: oblivion_def GetModTime_def catch_fs_def IsGhosted_def fs_exists_def
        fs_last_write_time_def world_def)
  have b: "list_all (\<lambda>t. t < 2 ^ 63) (spec_times (map sint [100, 100, 50 :: time_t]))"
    by (simp add: spec_times_def)
  have s: "snd (LoadOrder_Save world oblivion) = None"
    by (simp add: LoadOrder_Save_def LoadOrderMethod_def oblivion_def GetModTime_def
        SetModTime_def catch_fs_def IsGhosted_def fs_exists_def fs_last_write_time_def
        fs_set_last_write_time_def world_def)
  then obtain e' g' where r: "LoadOrder_Save world oblivion = ((e', g'), None)"
    by (cases "LoadOrder_Save world oblivion") auto
  from timestamp_save_rule [OF m d t b r]
  have "map (GetModTime e') (loadOrder g') =
          map Inr (map word_of_int (spec_times (map sint [100, 100, 50 :: time_t])))"
    and "loadOrder g' = loadOrder oblivion" by blast+
  then have "map (GetModTime (fst (fst (LoadOrder_Save world oblivion)))) (loadOrder oblivion) =
     [Inr 100, Inr 160, Inr 220]"
    using r by (simp add: spec_times_def)
  with m d t b s show ?thesis by simp
qed

text \<open>The claim as stated, for every non-empty load order, fails in two ways. When an
  element stands twice in the sequence, the second visit sets the time of the file the first
  element stands for: with \<^verbatim>\<open>A.esm\<close> at 100 and \<^verbatim>\<open>D.esp\<close> at 200, the order
  \<^verbatim>\<open>A.esm, D.esp, A.esm\<close> is saved with the times 260, 200, 260. And
  \<^verbatim>\<open>lastTime += 60\<close> wraps around at the end of the range of \<^verbatim>\<open>time_t\<close>: with
  \<^verbatim>\<open>A.esm\<close> at \<open>2 ^ 63 - 31\<close>, \<^verbatim>\<open>B.esp\<close> at 0 and \<^verbatim>\<open>C.esp\<close> at 50, three
  distinct files, the save succeeds and leaves the times \<open>2 ^ 63 - 31\<close>,
  \<open>- (2 ^ 63) + 29\<close> and 50.\<close>

theorem timestamp_save_rule_counterexample:
  "snd (LoadOrder_Save world
          (oblivion\<lparr>loadOrder := [\<lparr>name = ''A.esm''\<rparr>, \<lparr>name = ''D.esp''\<rparr>, \<lparr>name = ''A.esm''\<rparr>]\<rparr>)) = None \<and>
   map (GetModTime world) [\<lparr>name = ''A.esm''\<rparr>, \<lparr>name = ''D.esp''\<rparr>, \<lparr>name = ''A.esm''\<rparr>] =
     [Inr 100, Inr 200, Inr 100] \<and>
   map (GetModTime (fst (fst (LoadOrder_Save world
          (oblivion\<lparr>loadOrder := [\<lparr>name = ''A.esm''\<rparr>, \<lparr>name = ''D.esp''\<rparr>, \<lparr>name = ''A.esm''\<rparr>]\<rparr>)))))
     [\<lparr>name = ''A.esm''\<rparr>, \<lparr>name = ''D.esp''\<rparr>, \<lparr>name = ''A.esm''\<rparr>] =
     [Inr 260, Inr 200, Inr 260] \<and>
   \<not> sorted_wrt (\<lambda>a b. a \<le>s b) [260, 200, 260 :: time_t] \<and>
   LoadOrderMethod oblivion = LIBLO_METHOD_TIMESTAMP \<and>
   distinct (map (disk_file world_late) (loadOrder oblivion)) \<and>
   map (GetModTime world_late) (loadOrder oblivion) =
     [Inr 9223372036854775777, Inr 0, Inr 50] \<and>
   snd (LoadOrder_Save world_late oblivion) = None \<and>
   loadOrder (snd (fst (LoadOrder_Save world_late oblivion))) = loadOrder oblivion \<and>
   map (GetModTime (fst (fst (LoadOrder_Save world_late oblivion)))) (loadOrder oblivion) =
     [Inr 9223372036854775777, Inr (- 9223372036854775779), Inr 50] \<and>
   map sint [9223372036854775777, - 9223372036854775779, 50 :: time_t] =
     [9223372036854775777, - 9223372036854775779, 50] \<and>
   \<not> sorted_wrt (\<lambda>a b. a \<le>s b) [9223372036854775777, - 9223372036854775779, 50 :: time_t] \<and>
   spec_times (map sint [9223372036854775777, 0, 50 :: time_t]) =
     [9223372036854775777, 9223372036854775837, 9223372036854775897]"
proof -
  have dup: "LoadOrder_Save world
          (oblivion\<lparr>loadOrder := [\<lparr>name = ''A.esm''\<rparr>, \<lparr>name = ''D.esp''\<rparr>, \<lparr>name = ''A.esm''\<rparr>]\<rparr>) =
     ((world\<lparr>plugin_files := (plugin_files world)(''A.esm'' \<mapsto> 260)\<rparr>,
       oblivion\<lparr>loadOrder := [\<lparr>name = ''A.esm''\<rparr>, \<lparr>name = ''D.esp''\<rparr>, \<lparr>name = ''A.esm''\<rparr>],
                loadOrder_mtime := 1000\<rparr>), None)"
    by (simp add: LoadOrder_Save_def LoadOrderMethod_def oblivion_def GetModTime_def
        SetModTime_def catch_fs_def IsGhosted_def fs_exists_def fs_last_write_time_def
        fs_set_last_write_time_def world_def)
  have w: "(9223372036854775837 :: time_t) = - 9223372036854775779" by simp
  have late: "LoadOrder_Save world_late oblivion =
     ((world_late\<lparr>plugin_files :=
         (plugin_files world_late)(''B.esp'' \<mapsto> - 9223372036854775779)\<rparr>,
       oblivion\<lparr>loadOrder_mtime := 1000\<rparr>), None)"
    by (simp add: LoadOrder_Save_def LoadOrderMethod_def oblivion_def GetModTime_def
        SetModTime_def catch_fs_def IsGhosted_def fs_exists_def fs_last_write_time_def
        fs_set_last_write_time_def world_late_def world_def word_sless_alt w)
  have 1: "snd (LoadOrder_Save world
          (oblivion\<lparr>loadOrder := [\<lparr>name = ''A.esm''\<rparr>, \<lparr>name = ''D.esp''\<rparr>, \<lparr>name = ''A.esm''\<rparr>]\<rparr>)) = None"
    unfolding dup by simp
  have 2: "map (GetModTime world) [\<lparr>name = ''A.esm''\<rparr>, \<lparr>name = ''D.esp''\<rparr>, \<lparr>name = ''A.esm''\<rparr>] =
     [Inr 100, Inr 200, Inr 100]"
    by (simp add: GetModTime_def catch_fs_def IsGhosted_def fs_exists_def
        fs_last_write_time_def world_def)
  have 3: "map (GetModTime (fst (fst (LoadOrder_Save world
          (oblivion\<lparr>loadOrder := [\<lparr>name = ''A.esm''\<rparr>, \<lparr>name = ''D.esp''\<rparr>, \<lparr>name = ''A.esm''\<rparr>]\<rparr>)))))
     [\<lparr>name = ''A.esm''\<rparr>, \<lparr>name = ''D.esp''\<rparr>, \<lparr>name = ''A.esm''\<rparr>] =
     [Inr 260, Inr 200, Inr 260]"
    unfolding dup
    by (simp add: GetModTime_def catch_fs_def IsGhosted_def fs_exists_def
        fs_last_write_time_def world_def)
  have 4: "\<not> sorted_wrt (\<lambda>a b. a \<le>s b) [260, 200, 260 :: time_t]"
    by (simp add: word_sle_eq)
  have 5: "LoadOrderMethod oblivion = LIBLO_METHOD_TIMESTAMP"
    by (simp add: LoadOrderMethod_def oblivion_def)
  have 6: "distinct (map (disk_file world_late) (loadOrder oblivion))"
    by (simp add: oblivion_def disk_file_def disk_name_def ghosted_def world_late_def world_def)
  have 7: "map (GetModTime world_late) (loadOrder oblivion) =
     [Inr 9223372036854775777, Inr 0, Inr 50]"
    by (simp add: oblivion_def GetModTime_def catch_fs_def IsGhosted_def fs_exists_def
        fs_last_write_time_def world_late_def world_def)
  have 8: "snd (LoadOrder_Save world_late oblivion) = None"
    "loadOrder (snd (fst (LoadOrder_Save world_late oblivion))) = loadOrder oblivion"
    unfolding late by simp_all
  have 9: "map (GetModTime (fst (fst (LoadOrder_Save world_late oblivion)))) (loadOrder oblivion) =
     [Inr 9223372036854775777, Inr (- 9223372036854775779), Inr 50]"
    unfolding late
    by (simp add: oblivion_def GetModTime_def catch_fs_def IsGhosted_def fs_exists_def
        fs_last_write_time_def world_late_def world_def)
  have 10: "map sint [9223372036854775777, - 9223372036854775779, 50 :: time_t] =
     [9223372036854775777, - 9223372036854775779, 50]"
    by simp
  have 11: "\<not> sorted_wrt (\<lambda>a b. a \<le>s b) [9223372036854775777, - 9223372036854775779, 50 :: time_t]"
    by (simp add: word_sle_eq)
  have 12: "spec_times (map sint [9223372036854775777, 0, 50 :: time_t]) =
     [9223372036854775777, 9223372036854775837, 9223372036854775897]"
    by (simp add: spec_times_def)
  from 1 2 3 4 5 6 7 8 9 10 11 12 show ?thesis by (intro conjI)
qed

text \<open>
  Claim C4, as amended. Let a load order have all masters before all non-masters (I2).
  A successful \<^verbatim>\<open>LoadOrder::Save\<close> leaves the sequence as it is, and I2 still holds
  of it in the world after the save. \<^verbatim>\<open>Move(pos, plugin)\<close> with \<open>pos\<close> up to the size
  keeps I2 exactly when the index the plugin lands on respects the boundary between the
  masters and the non-masters among the other elements: at most the number of those masters
  when the plugin is a master, at least that number when it is not. Whether a plugin is a
  master is the flag in the header of the file it stands for, which
  \<^verbatim>\<open>IsMasterFile\<close> returns when it returns.
\<close>

theorem I2_move_and_save:
  assumes "I2 e lo"
  shows "(pos \<le> length lo \<longrightarrow>
            (\<exists>lo'. Move pos plugin lo = Some lo' \<and>
               I2 e lo' =
                 (if is_master e plugin
                  then landing pos plugin lo \<le> masters_count e (others plugin lo)
                  else masters_count e (others plugin lo) \<le> landing pos plugin lo))) \<and>
         (loadOrder g = lo \<longrightarrow> LoadOrder_Save e g = ((e', g'), None) \<longrightarrow>
            loadOrder g' = lo \<and> I2 e' (loadOrder g'))"
proof (intro conjI impI)
  show "\<exists>lo'. Move pos plugin lo = Some lo' \<and>
               I2 e lo' =
                 (if is_master e plugin
                  then landing pos plugin lo \<le> masters_count e (others plugin lo)
                  else masters_count e (others plugin lo) \<le> landing pos plugin lo)"
    if "pos \<le> length lo"
    using assms that by (rule Move_keeps_I2_iff)
next
  assume g: "loadOrder g = lo" and s: "LoadOrder_Save e g = ((e', g'), None)"
  from LoadOrder_Save_frame [OF s] have f: "loadOrder g' = loadOrder g" "same_plugins e e'"
    by simp_all
  from f(1) g show "loadOrder g' = lo" by simp
  from same_plugins_I2 [OF f(2)] f(1) g assms show "I2 e' (loadOrder g')" by simp
qed

theorem I2_move_and_save_witness:
  "I2 world (loadOrder oblivion) \<and>
   1 \<le> length (loadOrder oblivion) \<and>
   Move 1 \<lparr>name = ''Update.esm''\<rparr> (loadOrder oblivion) =
     Some [\<lparr>name = ''A.esm''\<rparr>, \<lparr>name = ''Update.esm''\<rparr>, \<lparr>name = ''B.esp''\<rparr>, \<lparr>name = ''C.esp''\<rparr>] \<and>
   I2 world [\<lparr>name = ''A.esm''\<rparr>, \<lparr>name = ''Update.esm''\<rparr>, \<lparr>name = ''B.esp''\<rparr>, \<lparr>name = ''C.esp''\<rparr>] \<and>
   snd (LoadOrder_Save world oblivion) = None \<and>
   I2 (fst (fst (LoadOrder_Save world oblivion)))
      (loadOrder (snd (fst (LoadOrder_Save world oblivion))))"
proof -
  have i: "I2 world (loadOrder oblivion)"
    by (simp add: I2_def oblivion_def is_master_def disk_name_def ghosted_def world_def)
  have l: "1 \<le> length (loadOrder oblivion)" by (simp add: oblivion_def)
  have mv: "Move 1 \<lparr>name = ''Update.esm''\<rparr> (loadOrder oblivion) =
     Some [\<lparr>name = ''A.esm''\<rparr>, \<lparr>name = ''Update.esm''\<rparr>, \<lparr>name = ''B.esp''\<rparr>, \<lparr>name = ''C.esp''\<rparr>]"
    by (simp add: Move_def vinsert_def oblivion_def Plugin_eq_def Name_def iequals_def
        to_upper_def)
  have m: "is_master world \<lparr>name = ''Update.esm''\<rparr>"
    by (simp add: is_master_def disk_name_def ghosted_def world_def)
  have c: "landing 1 \<lparr>name = ''Update.esm''\<rparr> (loadOrder oblivion) \<le>
             masters_count world (others \<lparr>name = ''Update.esm''\<rparr> (loadOrder oblivion))"
    by (simp add: landing_def others_def masters_count_def oblivion_def Plugin_eq_def Name_def
        iequals_def to_upper_def is_master_def disk_name_def ghosted_def world_def)
  have s: "snd (LoadOrder_Save world oblivion) = None"
    by (simp add: LoadOrder_Save_def LoadOrderMethod_def oblivion_def GetModTime_def
        SetModTime_def catch_fs_def IsGhosted_def fs_exists_def fs_last_write_time_def
        fs_set_last_write_time_def world_def)
  then obtain e' g' where r: "LoadOrder_Save world oblivion = ((e', g'), None)"
    by (cases "LoadOrder_Save world oblivion") auto
  note t = I2_move_and_save [OF i, of 1 "\<lparr>name = ''Update.esm''\<rparr>" oblivion e' g']
  from t l mv m c have "I2 world [\<lparr>name = ''A.esm''\<rparr>, \<lparr>name = ''Update.esm''\<rparr>, \<lparr>name = ''B.esp''\<rparr>, \<lparr>name = ''C.esp''\<rparr>]"
    by simp
  moreover from t r have "I2 e' (loadOrder g')" by blast
  ultimately show ?thesis using i l mv s r by simp
qed

text \<open>The claim as stated fails for a move: a non-master moved to the front of a load order
  that holds a master stands before that master.\<close>

theorem I2_move_counterexample:
  "I2 world [\<lparr>name = ''A.esm''\<rparr>] \<and>
   0 \<le> length [\<lparr>name = ''A.esm''\<rparr>] \<and>
   Move 0 \<lparr>name = ''B.esp''\<rparr> [\<lparr>name = ''A.esm''\<rparr>] = Some [\<lparr>name = ''B.esp''\<rparr>, \<lparr>name = ''A.esm''\<rparr>] \<and>
   \<not> I2 world [\<lparr>name = ''B.esp''\<rparr>, \<lparr>name = ''A.esm''\<rparr>]"
  by (simp add: I2_def Move_def vinsert_def Plugin_eq_def Name_def iequals_def to_upper_def
      is_master_def disk_name_def ghosted_def world_def)

text \<open>The other queries on a container return on the empty one:
  \<^verbatim>\<open>ActivePlugins::HasChanged\<close> tests \<^verbatim>\<open>empty()\<close> first, and
  \<^verbatim>\<open>ActivePlugins::IsValid\<close> iterates and so accepts the empty set for every game but
  TES5.\<close>

lemma ActivePlugins_HasChanged_empty:
  "activePlugins g = [] \<Longrightarrow> ActivePlugins_HasChanged e g = Inr True"
  by (simp add: ActivePlugins_HasChanged_def)

lemma ActivePlugins_IsValid_empty:
  "GameId g \<noteq> LIBLO_GAME_TES5 \<Longrightarrow> ActivePlugins_IsValid e g [] = Inr True"
  by (simp add: ActivePlugins_IsValid_def)

text \<open>\<^verbatim>\<open>LoadOrder::IsValid\<close> catches nothing: when the status of the first element's
  file cannot be read, the exception of \<^verbatim>\<open>fs::exists\<close> leaves the call.\<close>

lemma LoadOrder_IsValid_status_error:
  assumes "Plugin_eq first (Plugin_of (MasterFile g))" and "name first \<in> status_error e"
  shows "LoadOrder_IsValid e g (first # rest) =
           Inl (filesystem_error (what_of e (name first)))"
  using assms
  by (simp add: LoadOrder_IsValid_def Plugin_neq_def Exists_def fs_exists_def)

text \<open>
  Claim C6 at the input where the code departs from it. \<^verbatim>\<open>LoadOrder::IsValid\<close>
  starts with \<^verbatim>\<open>at(0)\<close> and has no test for an empty vector: on the empty sequence
  it does not return a boolean, it throws \<^verbatim>\<open>std::out_of_range\<close>, in every world and
  for every game. On a sequence that is not empty and whose elements answer the queries made
  of them (the status of the file and of its ghost can be read, and the header of the file
  can be parsed), it returns a boolean, true exactly when the five invariants hold: (I1) the
  first element equals the canonical master, (I2) masters precede non-masters, (I3) every
  element exists on disk, (I4) no two elements are equal ignoring case, (I5) every master
  named in an element's header stands earlier in the sequence. The query changes nothing:
  it is a function of the world, the game and the sequence.
\<close>

theorem LoadOrder_IsValid_empty_throws:
  "LoadOrder_IsValid e g [] = Inl out_of_range \<and>
   (lo \<noteq> [] \<longrightarrow> list_all (answers e) lo \<longrightarrow>
      LoadOrder_IsValid e g lo = Inr (I1 g lo \<and> I2 e lo \<and> I3 e lo \<and> I4 lo \<and> I5 e lo))"
proof (intro conjI impI)
  show "LoadOrder_IsValid e g [] = Inl out_of_range"
    by (simp add: LoadOrder_IsValid_def)
  show "LoadOrder_IsValid e g lo = Inr (I1 g lo \<and> I2 e lo \<and> I3 e lo \<and> I4 lo \<and> I5 e lo)"
    if "lo \<noteq> []" "list_all (answers e) lo"
    using that by (rule LoadOrder_IsValid_char)
qed

theorem LoadOrder_IsValid_empty_throws_witness:
  "LoadOrder_IsValid world oblivion [] = Inl out_of_range \<and>
   [\<lparr>name = ''A.esm''\<rparr>, \<lparr>name = ''B.esp''\<rparr>] \<noteq> [] \<and>
   list_all (answers world) [\<lparr>name = ''A.esm''\<rparr>, \<lparr>name = ''B.esp''\<rparr>] \<and>
   LoadOrder_IsValid world oblivion [\<lparr>name = ''A.esm''\<rparr>, \<lparr>name = ''B.esp''\<rparr>] = Inr True \<and>
   I1 oblivion [\<lparr>name = ''A.esm''\<rparr>, \<lparr>name = ''B.esp''\<rparr>] \<and>
   I2 world [\<lparr>name = ''A.esm''\<rparr>, \<lparr>name = ''B.esp''\<rparr>] \<and>
   I3 world [\<lparr>name = ''A.esm''\<rparr>, \<lparr>name = ''B.esp''\<rparr>] \<and>
   I4 [\<lparr>name = ''A.esm''\<rparr>, \<lparr>name = ''B.esp''\<rparr>] \<and>
   I5 world [\<lparr>name = ''A.esm''\<rparr>, \<lparr>name = ''B.esp''\<rparr>]"
proof -
  note t = LoadOrder_IsValid_empty_throws
    [of world oblivion "[\<lparr>name = ''A.esm''\<rparr>, \<lparr>name = ''B.esp''\<rparr>]"]
  have a: "list_all (answers world) [\<lparr>name = ''A.esm''\<rparr>, \<lparr>name = ''B.esp''\<rparr>]"
    by (simp add: answers_def world_def)
  have v: "LoadOrder_IsValid world oblivion [\<lparr>name = ''A.esm''\<rparr>, \<lparr>name = ''B.esp''\<rparr>] = Inr True"
    by (simp add: LoadOrder_IsValid_def world_def oblivion_def Plugin_neq_def Plugin_eq_def
        Plugin_of_def Name_def iequals_def path_extension_def to_upper_def Exists_def
        IsMasterFile_def IsGhosted_def fs_exists_def IsPluginMaster_def GetPluginMasters_def
        contains_def emplace_def GetMasters_def)
  from t a v
  have i: "I1 oblivion [\<lparr>name = ''A.esm''\<rparr>, \<lparr>name = ''B.esp''\<rparr>] \<and>
           I2 world [\<lparr>name = ''A.esm''\<rparr>, \<lparr>name = ''B.esp''\<rparr>] \<and>
           I3 world [\<lparr>name = ''A.esm''\<rparr>, \<lparr>name = ''B.esp''\<rparr>] \<and>
           I4 [\<lparr>name = ''A.esm''\<rparr>, \<lparr>name = ''B.esp''\<rparr>] \<and>
           I5 world [\<lparr>name = ''A.esm''\<rparr>, \<lparr>name = ''B.esp''\<rparr>]"
    by simp
  from t have "LoadOrder_IsValid world oblivion [] = Inl out_of_range" by (rule conjunct1)
  with a v i show ?thesis by simp
qed

text \<open>For the games other than TES3 no key is written: when the file can be opened and
  the transcoder reports the name it cannot encode as the text of its error, the file
  written holds one line for every name that can be encoded, in order, and nothing else, and
  \<^verbatim>\<open>LIBLO_WARN_BAD_FILENAME\<close> is raised with the last failing name exactly when some
  name fails.\<close>

lemma ActivePlugins_Save_other_games:
  assumes "GameId g \<noteq> LIBLO_GAME_TES3"
    and "ActivePluginsFile g \<notin> no_write e"
    and "\<forall>n w. Utf8ToEnc e n = Inl w \<longrightarrow> w = n \<and> n \<noteq> []"
  shows "ActivePlugins_Save e g =
           (write_file e (ActivePluginsFile g)
              (concat (map (\<lambda>n. case Utf8ToEnc e n of Inr bytes \<Rightarrow> bytes @ [CHR 0x0A]
                                  | Inl what \<Rightarrow> [])
                         (saved_names g))),
            if failing_names e (saved_names g) = [] then None
            else Some (error LIBLO_WARN_BAD_FILENAME (last (failing_names e (saved_names g)))))"
proof -
  have "entries_text e g (saved_names g) =
          concat (map (\<lambda>n. case Utf8ToEnc e n of Inr bytes \<Rightarrow> bytes @ [CHR 0x0A]
                                  | Inl what \<Rightarrow> [])
                         (saved_names g))"
    using assms(1) by (simp add: entries_text_no_key [OF assms(1)] entry_text_def)
  moreover have "ini_prefix e g = []" using assms(1) by (simp add: ini_prefix_def)
  ultimately show ?thesis
    using ActivePlugins_Save_closed [OF assms(2)]
      bad_after_last [OF assms(3), of "[]" "saved_names g"]
      failing_names_nonempty [OF assms(3), of "saved_names g"]
    by simp
qed

text \<open>
  Claim C8 at an input where the code departs from it. The game is TES3,
  \<^verbatim>\<open>Morrowind.ini\<close> holds the section \<^verbatim>\<open>[Game Files]\<close>, and the active set iterates
  \<^verbatim>\<open>Tribunal.esm\<close>, then a name that cannot be encoded, then \<^verbatim>\<open>Bloodmoon.esm\<close>.
  \<^verbatim>\<open>ActivePlugins::Save\<close> writes the key \<^verbatim>\<open>GameFile1=\<close> before it tries to encode
  the second name, and nothing after it when the encoding fails: the key of the third entry
  follows on the same line, the file holds the line
  \<^verbatim>\<open>GameFile1=GameFile2=Bloodmoon.esm\<close>, and \<^verbatim>\<open>LIBLO_WARN_BAD_FILENAME\<close> is raised
  with the failing name. \<^verbatim>\<open>ActivePlugins::Load\<close> reads from that file the set of
  \<^verbatim>\<open>Tribunal.esm\<close> and \<^verbatim>\<open>GameFile2=Bloodmoon.esm\<close>: the entry of
  \<^verbatim>\<open>Bloodmoon.esm\<close>, a name that can be encoded, has not been saved.
\<close>

theorem ActivePlugins_Save_TES3_glued_entry:
  "GameId morrowind_cyrillic = LIBLO_GAME_TES3 \<and>
   ActivePluginsFile morrowind_cyrillic = ''Morrowind.ini'' \<and>
   map Name (activePlugins morrowind_cyrillic) =
     [''Tribunal.esm'', [CHR 0xD0, CHR 0x96] @ ''.esp'', ''Bloodmoon.esm''] \<and>
   map (Utf8ToEnc world_ini) (map Name (activePlugins morrowind_cyrillic)) =
     [Inr ''Tribunal.esm'', Inl ([CHR 0xD0, CHR 0x96] @ ''.esp''), Inr ''Bloodmoon.esm''] \<and>
   ActivePlugins_Save world_ini morrowind_cyrillic =
     (write_file world_ini ''Morrowind.ini''
        (''[Game Files]'' @ [CHR 0x0A] @
         ''GameFile0=Tribunal.esm'' @ [CHR 0x0A] @
         ''GameFile1=GameFile2=Bloodmoon.esm'' @ [CHR 0x0A]),
      Some (error LIBLO_WARN_BAD_FILENAME ([CHR 0xD0, CHR 0x96] @ ''.esp''))) \<and>
   getlines (fileToBuffer (fst (ActivePlugins_Save world_ini morrowind_cyrillic))
               ''Morrowind.ini'') =
     [''[Game Files]'', ''GameFile0=Tribunal.esm'', ''GameFile1=GameFile2=Bloodmoon.esm'', []] \<and>
   ActivePlugins_Load (fst (ActivePlugins_Save world_ini morrowind_cyrillic))
       morrowind_cyrillic =
     (morrowind_cyrillic\<lparr>activePlugins :=
        [\<lparr>name = ''Tribunal.esm''\<rparr>, \<lparr>name = ''GameFile2=Bloodmoon.esm''\<rparr>]\<rparr>, None) \<and>
   \<not> contains
        (activePlugins
           (fst (ActivePlugins_Load (fst (ActivePlugins_Save world_ini morrowind_cyrillic))
                   morrowind_cyrillic)))
        \<lparr>name = ''Bloodmoon.esm''\<rparr>"
proof -
  have i: "GameId morrowind_cyrillic = LIBLO_GAME_TES3"
    "ActivePluginsFile morrowind_cyrillic = ''Morrowind.ini''"
    by (simp_all add: morrowind_cyrillic_def morrowind_def)
  have n: "map Name (activePlugins morrowind_cyrillic) =
     [''Tribunal.esm'', [CHR 0xD0, CHR 0x96] @ ''.esp'', ''Bloodmoon.esm'']"
    by (simp add: morrowind_cyrillic_def morrowind_def Name_def)
  have u: "map (Utf8ToEnc world_ini) (map Name (activePlugins morrowind_cyrillic)) =
     [Inr ''Tribunal.esm'', Inl ([CHR 0xD0, CHR 0x96] @ ''.esp''), Inr ''Bloodmoon.esm'']"
    unfolding n by (simp add: world_ini_def world_def)
  have m: "LoadOrderMethod morrowind_cyrillic = LIBLO_METHOD_TIMESTAMP"
    by (simp add: LoadOrderMethod_def morrowind_cyrillic_def morrowind_def)
  have d: "decimal 0 = ''0''" "decimal (Suc 0) = ''1''" "decimal (Suc (Suc 0)) = ''2''"
    by simp_all
  have wu: "write_unordered world_ini morrowind_cyrillic 0 (activePlugins morrowind_cyrillic)
              (out, []) =
            (out @ ''GameFile0=Tribunal.esm'' @ [CHR 0x0A] @
               ''GameFile1=GameFile2=Bloodmoon.esm'' @ [CHR 0x0A],
             [CHR 0xD0, CHR 0x96] @ ''.esp'')" for out
    by (simp add: morrowind_cyrillic_def morrowind_def world_ini_def world_def Name_def d
        del: decimal.simps)
  have f: "str_find (''[Game Files]'' @ [CHR 0x0A] @ ''GameFile0=Old.esm'' @ [CHR 0x0A])
             ''[Game Files]'' = Some 0"
    by simp
  have fb: "fileToBuffer world_ini ''Morrowind.ini'' =
              ''[Game Files]'' @ [CHR 0x0A] @ ''GameFile0=Old.esm'' @ [CHR 0x0A]"
    by (simp add: fileToBuffer_def world_ini_def)
  have nw: "''Morrowind.ini'' \<notin> no_write world_ini"
    by (simp add: world_ini_def world_def)
  have s: "ActivePlugins_Save world_ini morrowind_cyrillic =
     (write_file world_ini ''Morrowind.ini''
        (''[Game Files]'' @ [CHR 0x0A] @
         ''GameFile0=Tribunal.esm'' @ [CHR 0x0A] @
         ''GameFile1=GameFile2=Bloodmoon.esm'' @ [CHR 0x0A]),
      Some (error LIBLO_WARN_BAD_FILENAME ([CHR 0xD0, CHR 0x96] @ ''.esp'')))"
    unfolding ActivePlugins_Save_def m i fb f Let_def wu
    using nw by simp
  have l: "getlines (fileToBuffer (fst (ActivePlugins_Save world_ini morrowind_cyrillic))
               ''Morrowind.ini'') =
     [''[Game Files]'', ''GameFile0=Tribunal.esm'', ''GameFile1=GameFile2=Bloodmoon.esm'', []]"
    unfolding s by (simp add: fileToBuffer_def write_file_def)
  have k: "ini_match ''GameFile0=Tribunal.esm''" "ini_match ''GameFile1=GameFile2=Bloodmoon.esm''"
    "\<not> ini_match ''[Game Files]''"
    by (simp_all add: ini_match_def to_upper_def)
  have a: "after_equals ''GameFile0=Tribunal.esm'' = ''Tribunal.esm''"
    "after_equals ''GameFile1=GameFile2=Bloodmoon.esm'' = ''GameFile2=Bloodmoon.esm''"
    by (simp_all add: after_equals_def)
  have p: "Plugin_of ''Tribunal.esm'' = \<lparr>name = ''Tribunal.esm''\<rparr>"
    "Plugin_of ''GameFile2=Bloodmoon.esm'' = \<lparr>name = ''GameFile2=Bloodmoon.esm''\<rparr>"
    by (simp_all add: Plugin_of_def path_extension_def iequals_def)
  have c: "\<not> contains [] \<lparr>name = ''Tribunal.esm''\<rparr>"
    "\<not> contains [\<lparr>name = ''Tribunal.esm''\<rparr>] \<lparr>name = ''GameFile2=Bloodmoon.esm''\<rparr>"
    "\<not> contains [\<lparr>name = ''Tribunal.esm''\<rparr>, \<lparr>name = ''GameFile2=Bloodmoon.esm''\<rparr>]
         \<lparr>name = ''Bloodmoon.esm''\<rparr>"
    by (simp_all add: contains_def Plugin_eq_def Name_def iequals_def)
  have bk: "bucket (write_file world_ini path out) = (\<lambda>p s. length s)"
    "EncToUtf8 (write_file world_ini path out) = (\<lambda>s. s)" for path out
    by (simp_all add: write_file_def world_ini_def world_def)
  have r: "read_ini (write_file world_ini path out)
       [''[Game Files]'', ''GameFile0=Tribunal.esm'', ''GameFile1=GameFile2=Bloodmoon.esm'', []] [] =
     [\<lparr>name = ''Tribunal.esm''\<rparr>, \<lparr>name = ''GameFile2=Bloodmoon.esm''\<rparr>]" for path out
    by (simp add: k a p c emplace_def bk)
  have t: "text_files (fst (ActivePlugins_Save world_ini morrowind_cyrillic)) ''Morrowind.ini'' =
      Some (fileToBuffer (fst (ActivePlugins_Save world_ini morrowind_cyrillic))
              ''Morrowind.ini'', clock world_ini)"
    unfolding s by (simp add: fileToBuffer_def write_file_def)
  have ld: "ActivePlugins_Load (fst (ActivePlugins_Save world_ini morrowind_cyrillic))
       morrowind_cyrillic =
     (morrowind_cyrillic\<lparr>activePlugins :=
        [\<lparr>name = ''Tribunal.esm''\<rparr>, \<lparr>name = ''GameFile2=Bloodmoon.esm''\<rparr>]\<rparr>, None)"
    unfolding ActivePlugins_Load_def i t option.case prod.case l Let_def
    unfolding s fst_conv r
    by simp
  have nc: "\<not> contains
        (activePlugins
           (fst (ActivePlugins_Load (fst (ActivePlugins_Save world_ini morrowind_cyrillic))
                   morrowind_cyrillic)))
        \<lparr>name = ''Bloodmoon.esm''\<rparr>"
    unfolding ld using c(3) by simp
  show ?thesis
    apply (intro conjI)
    apply (rule i(1))
    apply (rule i(2))
    apply (rule n)
    apply (rule u)
    apply (rule s)
    apply (rule l)
    apply (rule ld)
    apply (rule nc)
    done
qed

theorem ActivePlugins_Save_TES3_glued_entry_witness:
  "snd (ActivePlugins_Save world_ini morrowind_cyrillic) =
     Some (error LIBLO_WARN_BAD_FILENAME ([CHR 0xD0, CHR 0x96] @ ''.esp'')) \<and>
   activePlugins
     (fst (ActivePlugins_Load (fst (ActivePlugins_Save world_ini morrowind_cyrillic))
             morrowind_cyrillic)) =
     [\<lparr>name = ''Tribunal.esm''\<rparr>, \<lparr>name = ''GameFile2=Bloodmoon.esm''\<rparr>]"
proof -
  note t = ActivePlugins_Save_TES3_glued_entry
  have sv: "ActivePlugins_Save world_ini morrowind_cyrillic =
     (write_file world_ini ''Morrowind.ini''
        (''[Game Files]'' @ [CHR 0x0A] @
         ''GameFile0=Tribunal.esm'' @ [CHR 0x0A] @
         ''GameFile1=GameFile2=Bloodmoon.esm'' @ [CHR 0x0A]),
      Some (error LIBLO_WARN_BAD_FILENAME ([CHR 0xD0, CHR 0x96] @ ''.esp'')))"
    by (rule t [THEN conjunct2, THEN conjunct2, THEN conjunct2, THEN conjunct2, THEN conjunct1])
  have ld: "ActivePlugins_Load (fst (ActivePlugins_Save world_ini morrowind_cyrillic))
       morrowind_cyrillic =
     (morrowind_cyrillic\<lparr>activePlugins :=
        [\<lparr>name = ''Tribunal.esm''\<rparr>, \<lparr>name = ''GameFile2=Bloodmoon.esm''\<rparr>]\<rparr>, None)"
    by (rule t [THEN conjunct2, THEN conjunct2, THEN conjunct2, THEN conjunct2, THEN conjunct2,
          THEN conjunct2, THEN conjunct1])
  have "snd (ActivePlugins_Save world_ini morrowind_cyrillic) =
     Some (error LIBLO_WARN_BAD_FILENAME ([CHR 0xD0, CHR 0x96] @ ''.esp''))"
    unfolding sv by simp
  moreover have "activePlugins
     (fst (ActivePlugins_Load (fst (ActivePlugins_Save world_ini morrowind_cyrillic))
             morrowind_cyrillic)) =
     [\<lparr>name = ''Tribunal.esm''\<rparr>, \<lparr>name = ''GameFile2=Bloodmoon.esm''\<rparr>]"
    unfolding ld by simp
  ultimately show ?thesis by (rule conjI)
qed

text \<open>
  Claim C9. For TES3, with an existing \<^verbatim>\<open>Morrowind.ini\<close> that can be opened for
  writing: when the exact string \<^verbatim>\<open>[Game Files]\<close> does not occur in the old contents
  (a header in another case does not count), the file written by
  \<^verbatim>\<open>ActivePlugins::Save\<close> holds the \<^verbatim>\<open>GameFile<i>=\<close> entries of the active set and
  nothing of the old contents; when it occurs, the old text up to and including its first
  occurrence is kept in front of the entries.
\<close>

theorem ActivePlugins_Save_ini_prefix:
  assumes "GameId g = LIBLO_GAME_TES3"
    and "text_files e (ActivePluginsFile g) = Some (old, t)"
    and "ActivePluginsFile g \<notin> no_write e"
  shows "(\<not> occurs ''[Game Files]'' old \<longrightarrow>
            text_files (fst (ActivePlugins_Save e g)) (ActivePluginsFile g) =
              Some (concat (map (\<lambda>(i, n). ''GameFile'' @ decimal i @ ''='' @
                                   (case Utf8ToEnc e n of
                                      Inr bytes \<Rightarrow> bytes @ [CHR 0x0A]
                                    | Inl what \<Rightarrow> []))
                              (zip [0..<length (activePlugins g)]
                                 (map Name (activePlugins g)))),
                    clock e)) \<and>
         (occurs ''[Game Files]'' old \<longrightarrow>
            (\<exists>pre post. old = pre @ ''[Game Files]'' @ post \<and>
               (\<forall>i < length pre. take 12 (drop i old) \<noteq> ''[Game Files]'') \<and>
               text_files (fst (ActivePlugins_Save e g)) (ActivePluginsFile g) =
                 Some (pre @ ''[Game Files]'' @ [CHR 0x0A] @
                       entries_text e g (map Name (activePlugins g)), clock e)))"
proof (intro conjI impI)
  have m: "LoadOrderMethod g = LIBLO_METHOD_TIMESTAMP"
    using assms(1) by (simp add: LoadOrderMethod_def)
  then have n: "saved_names g = map Name (activePlugins g)" by (simp add: saved_names_def)
  have b: "fileToBuffer e (ActivePluginsFile g) = old"
    using assms(2) by (simp add: fileToBuffer_def)
  have w: "text_files (fst (ActivePlugins_Save e g)) (ActivePluginsFile g) =
             Some (ini_prefix e g @ entries_text e g (map Name (activePlugins g)), clock e)"
    using ActivePlugins_Save_closed [OF assms(3)] n by (simp add: write_file_def)
  have k: "entries_text e g ns =
             concat (map (\<lambda>(i, n). ''GameFile'' @ decimal i @ ''='' @
                                   (case Utf8ToEnc e n of
                                      Inr bytes \<Rightarrow> bytes @ [CHR 0x0A]
                                    | Inl what \<Rightarrow> []))
                      (zip [0..<length ns] ns))" for ns
    using assms(1) by (simp add: entries_text_def entry_text_def)
  show "text_files (fst (ActivePlugins_Save e g)) (ActivePluginsFile g) =
              Some (concat (map (\<lambda>(i, n). ''GameFile'' @ decimal i @ ''='' @
                                   (case Utf8ToEnc e n of
                                      Inr bytes \<Rightarrow> bytes @ [CHR 0x0A]
                                    | Inl what \<Rightarrow> []))
                              (zip [0..<length (activePlugins g)]
                                 (map Name (activePlugins g)))),
                    clock e)"
    if "\<not> occurs ''[Game Files]'' old"
  proof -
    from that have "str_find old ''[Game Files]'' = None" by (simp add: str_find_None)
    then have "ini_prefix e g = []" using assms(1) b by (simp add: ini_prefix_def)
    with w k [of "map Name (activePlugins g)"] show ?thesis by simp
  qed
  show "\<exists>pre post. old = pre @ ''[Game Files]'' @ post \<and>
               (\<forall>i < length pre. take 12 (drop i old) \<noteq> ''[Game Files]'') \<and>
               text_files (fst (ActivePlugins_Save e g)) (ActivePluginsFile g) =
                 Some (pre @ ''[Game Files]'' @ [CHR 0x0A] @
                       entries_text e g (map Name (activePlugins g)), clock e)"
    if "occurs ''[Game Files]'' old"
  proof -
    from that obtain pos where pos: "str_find old ''[Game Files]'' = Some pos"
      using str_find_None [of old "''[Game Files]''"] by auto
    have l12: "length ''[Game Files]'' = 12" by simp
    have tk: "take (pos + 12) old = take pos old @ ''[Game Files]''"
      using str_find_Some [OF pos] unfolding l12 .
    have "old = take (pos + 12) old @ drop (pos + 12) old" by simp
    with tk have o: "old = take pos old @ ''[Game Files]'' @ drop (pos + 12) old" by simp
    from str_find_bound [OF pos] have lp: "length (take pos old) = pos" by simp
    have f: "\<forall>i < length (take pos old). take 12 (drop i old) \<noteq> ''[Game Files]''"
      unfolding lp using str_find_least [OF pos] unfolding l12 by blast
    have "ini_prefix e g = take pos old @ ''[Game Files]'' @ [CHR 0x0A]"
      using assms(1) b pos tk by (simp add: ini_prefix_def)
    with w o f show ?thesis by (metis append.assoc)
  qed
qed

theorem ActivePlugins_Save_ini_prefix_witness:
  "GameId morrowind = LIBLO_GAME_TES3 \<and>
   text_files world (ActivePluginsFile morrowind) =
     Some (''[game files]'' @ [CHR 0x0A] @ ''GameFile0=Old.esm'' @ [CHR 0x0A], 5) \<and>
   ActivePluginsFile morrowind \<notin> no_write world \<and>
   \<not> occurs ''[Game Files]'' (''[game files]'' @ [CHR 0x0A] @ ''GameFile0=Old.esm'' @ [CHR 0x0A]) \<and>
   text_files (fst (ActivePlugins_Save world morrowind)) ''Morrowind.ini'' =
     Some (''GameFile0=Tribunal.esm'' @ [CHR 0x0A] @ ''GameFile1=Bloodmoon.esm'' @ [CHR 0x0A],
           2000)"
proof -
  have i: "GameId morrowind = LIBLO_GAME_TES3" by (simp add: morrowind_def)
  have f: "text_files world (ActivePluginsFile morrowind) =
     Some (''[game files]'' @ [CHR 0x0A] @ ''GameFile0=Old.esm'' @ [CHR 0x0A], 5)"
    by (simp add: morrowind_def world_def)
  have w: "ActivePluginsFile morrowind \<notin> no_write world" by (simp add: world_def)
  have o: "\<not> occurs ''[Game Files]''
               (''[game files]'' @ [CHR 0x0A] @ ''GameFile0=Old.esm'' @ [CHR 0x0A])"
    by (simp add: str_find_None [symmetric])
  have a: "activePlugins morrowind = [\<lparr>name = ''Tribunal.esm''\<rparr>, \<lparr>name = ''Bloodmoon.esm''\<rparr>]"
    "ActivePluginsFile morrowind = ''Morrowind.ini''" "clock world = 2000"
    "Utf8ToEnc world ''Tribunal.esm'' = Inr ''Tribunal.esm''"
    "Utf8ToEnc world ''Bloodmoon.esm'' = Inr ''Bloodmoon.esm''"
    by (simp_all add: morrowind_def world_def)
  from ActivePlugins_Save_ini_prefix [OF i f w] o
  have "text_files (fst (ActivePlugins_Save world morrowind)) (ActivePluginsFile morrowind) =
              Some (concat (map (\<lambda>(i, n). ''GameFile'' @ decimal i @ ''='' @
                                   (case Utf8ToEnc world n of
                                      Inr bytes \<Rightarrow> bytes @ [CHR 0x0A]
                                    | Inl what \<Rightarrow> []))
                              (zip [0..<length (activePlugins morrowind)]
                                 (map Name (activePlugins morrowind)))),
                    clock world)"
    by blast
  then have "text_files (fst (ActivePlugins_Save world morrowind)) ''Morrowind.ini'' =
     Some (''GameFile0=Tribunal.esm'' @ [CHR 0x0A] @ ''GameFile1=Bloodmoon.esm'' @ [CHR 0x0A],
           2000)"
    by (simp add: a Name_def upt_rec)
  with i f w o show ?thesis by simp
qed

text \<open>
  Claim C10. For TES5 (textfile method), \<^verbatim>\<open>ActivePlugins::Save\<close> skips a load-order
  entry only when its name is the master file's name character for character. An active
  entry of the load order whose name equals the master's only up to case (so that
  \<^verbatim>\<open>operator==\<close> takes it for the master) is transcoded and written to the
  active-plugins file, while no entry with exactly the master's name is.
\<close>

theorem ActivePlugins_Save_master_case:
  assumes "GameId g = LIBLO_GAME_TES5"
    and "it \<in> set (loadOrder g)"
    and "contains (activePlugins g) it"
    and "iequals (Name it) (MasterFile g)"
    and "Name it \<noteq> MasterFile g"
    and "ActivePluginsFile g \<notin> no_write e"
    and "Utf8ToEnc e (Name it) = Inr bytes"
  shows "LoadOrderMethod g = LIBLO_METHOD_TEXTFILE \<and>
         Plugin_eq it \<lparr>name = MasterFile g\<rparr> \<and>
         Name it \<in> set (saved_names g) \<and>
         MasterFile g \<notin> set (saved_names g) \<and>
         (\<exists>pre post. fileToBuffer (fst (ActivePlugins_Save e g)) (ActivePluginsFile g) =
                        pre @ bytes @ [CHR 0x0A] @ post)"
proof (intro conjI)
  show m: "LoadOrderMethod g = LIBLO_METHOD_TEXTFILE"
    using assms(1) by (simp add: LoadOrderMethod_def)
  show "Plugin_eq it \<lparr>name = MasterFile g\<rparr>"
    using assms(4) by (simp add: Plugin_eq_def Name_def)
  from m have n: "saved_names g =
      map Name (filter (\<lambda>it. contains (activePlugins g) it \<and>
                            \<not> (GameId g = LIBLO_GAME_TES5 \<and> Name it = MasterFile g))
                (loadOrder g))"
    by (simp add: saved_names_def)
  show s: "Name it \<in> set (saved_names g)"
    unfolding n using assms(2,3,5) by auto
  show "MasterFile g \<notin> set (saved_names g)"
    unfolding n using assms(1) by auto
  from s assms(7) obtain pre post where
    "entries_text e g (saved_names g) = pre @ bytes @ [CHR 0x0A] @ post"
    using entries_text_holds by blast
  then have "fileToBuffer (fst (ActivePlugins_Save e g)) (ActivePluginsFile g) =
               (ini_prefix e g @ pre) @ bytes @ [CHR 0x0A] @ post"
    using ActivePlugins_Save_closed [OF assms(6)]
    by (simp add: fileToBuffer_def write_file_def)
  then show "\<exists>pre post. fileToBuffer (fst (ActivePlugins_Save e g)) (ActivePluginsFile g) =
                        pre @ bytes @ [CHR 0x0A] @ post"
    by blast
qed

theorem ActivePlugins_Save_master_case_witness:
  "GameId skyrim = LIBLO_GAME_TES5 \<and>
   \<lparr>name = ''skyrim.esm''\<rparr> \<in> set (loadOrder skyrim) \<and>
   contains (activePlugins skyrim) \<lparr>name = ''skyrim.esm''\<rparr> \<and>
   iequals (Name \<lparr>name = ''skyrim.esm''\<rparr>) (MasterFile skyrim) \<and>
   Name \<lparr>name = ''skyrim.esm''\<rparr> \<noteq> MasterFile skyrim \<and>
   ActivePluginsFile skyrim \<notin> no_write world \<and>
   Utf8ToEnc world (Name \<lparr>name = ''skyrim.esm''\<rparr>) = Inr ''skyrim.esm'' \<and>
   Name \<lparr>name = ''skyrim.esm''\<rparr> \<in> set (saved_names skyrim) \<and>
   fileToBuffer (fst (ActivePlugins_Save world skyrim)) (ActivePluginsFile skyrim) =
     ''skyrim.esm'' @ [CHR 0x0A] @ ''Update.esm'' @ [CHR 0x0A] @ ''Mod.esp'' @ [CHR 0x0A]"
proof -
  have a: "GameId skyrim = LIBLO_GAME_TES5" by (simp add: skyrim_def)
  have b: "\<lparr>name = ''skyrim.esm''\<rparr> \<in> set (loadOrder skyrim)" by (simp add: skyrim_def)
  have c: "contains (activePlugins skyrim) \<lparr>name = ''skyrim.esm''\<rparr>"
    by (simp add: skyrim_def contains_def Plugin_eq_def Name_def iequals_def)
  have d: "iequals (Name \<lparr>name = ''skyrim.esm''\<rparr>) (MasterFile skyrim)"
    by (simp add: skyrim_def Name_def iequals_def to_upper_def)
  have f: "Name \<lparr>name = ''skyrim.esm''\<rparr> \<noteq> MasterFile skyrim"
    by (simp add: skyrim_def Name_def)
  have h: "ActivePluginsFile skyrim \<notin> no_write world" by (simp add: world_def)
  have i: "Utf8ToEnc world (Name \<lparr>name = ''skyrim.esm''\<rparr>) = Inr ''skyrim.esm''"
    by (simp add: world_def Name_def)
  have v: "fileToBuffer (fst (ActivePlugins_Save world skyrim)) (ActivePluginsFile skyrim) =
     ''skyrim.esm'' @ [CHR 0x0A] @ ''Update.esm'' @ [CHR 0x0A] @ ''Mod.esp'' @ [CHR 0x0A]"
    by (simp add: ActivePlugins_Save_def LoadOrderMethod_def skyrim_def world_def
        fileToBuffer_def write_file_def contains_def Plugin_eq_def Name_def iequals_def
        to_upper_def)
  from ActivePlugins_Save_master_case [OF a b c d f h i]
  have "Name \<lparr>name = ''skyrim.esm''\<rparr> \<in> set (saved_names skyrim)" by blast
  with a b c d f h i v show ?thesis by simp
qed

end
